theory Spec2Isabelle
  imports Complex_Main
begin

section \<open>Data model\<close>

text \<open>
  The program is \<^verbatim>\<open>sedumi_writer.py\<close>. Its arrays hold floating point numbers; the
  embedding computes with exact reals, so a statement below is about the arithmetic
  the code is written to perform, not about rounding, infinities or NaN.

  The exceptions the code can raise are values: an out-of-range index, a shape that
  numpy cannot broadcast (or a negative dimension), a failed \<^verbatim>\<open>assert\<close>, and the read
  of a local variable that was never assigned.
\<close>

datatype error = IndexError | ValueError | AssertionError | UnboundLocalError

text \<open>The cone descriptor \<^verbatim>\<open>K = {'f': .., 'l': .., 's': [..]}\<close>; Python integers.\<close>

record cone =
  K_f :: int
  K_l :: int
  K_s :: "int list"

section \<open>check_eliminatibility\<close>

text \<open>\<^verbatim>\<open>abs(v).any()\<close>: some entry of the vector has a nonzero absolute value.\<close>

definition any_nonzero :: "real list \<Rightarrow> bool" where
  "any_nonzero v = list_ex (\<lambda>x. \<bar>x\<bar> \<noteq> 0) v"

text \<open>\<^verbatim>\<open>while j < n and g[j] == 0: j += 1\<close>, returning the final \<open>j\<close>.\<close>

function skip_zeros :: "real list \<Rightarrow> nat \<Rightarrow> nat" where
  "skip_zeros g j = (if j < length g \<and> g ! j = 0 then skip_zeros g (j + 1) else j)"
  by pat_completeness auto
termination
  by (relation "measure (\<lambda>(g, j). length g - j)") auto

declare skip_zeros.simps [simp del]

text \<open>
  The loop \<^verbatim>\<open>for i in range(n_elig)\<close> over the list of its indices. Reading \<^verbatim>\<open>g[i]\<close>
  past the end of the row raises. The first nonzero \<^verbatim>\<open>g[i]\<close> decides the result: every
  branch under it returns.
\<close>

fun check_eliminatibility_loop ::
  "real list \<Rightarrow> nat list \<Rightarrow> error + (nat option \<times> nat option)" where
  "check_eliminatibility_loop g [] = Inr (None, None)"
| "check_eliminatibility_loop g (i # is) =
     (if length g \<le> i then Inl IndexError
      else if g ! i \<noteq> 0 then
        (let j = skip_zeros g (i + 1) in
         if j = length g then Inr (Some i, None)
         else if \<not> any_nonzero (drop (j + 1) g) then Inr (Some i, Some j)
         else Inr (None, None))
      else check_eliminatibility_loop g is)"

text \<open>
  \<^verbatim>\<open>check_eliminatibility(g, h, n_elig=None, allow_nonzero_b=False)\<close>. \<^verbatim>\<open>range(n_elig)\<close>
  is empty for a negative \<^verbatim>\<open>n_elig\<close>.
\<close>

definition check_eliminatibility ::
  "real list \<Rightarrow> real \<Rightarrow> int option \<Rightarrow> bool \<Rightarrow> error + (nat option \<times> nat option)" where
  "check_eliminatibility g h n_elig allow_nonzero_b =
     (let n = length g;
          n_elig' = (case n_elig of None \<Rightarrow> int n | Some e \<Rightarrow> e)
      in if \<not> allow_nonzero_b \<and> h \<noteq> 0 then Inr (None, None)
         else check_eliminatibility_loop g [0..<nat n_elig'])"

text \<open>
  The test as the specification words it: the first nonzero coefficient among the
  eligible indices, then the nonzero coefficients after it, counted.
\<close>

definition nonzeros_from :: "real list \<Rightarrow> nat \<Rightarrow> nat \<Rightarrow> nat list" where
  "nonzeros_from g lo hi = filter (\<lambda>k. g ! k \<noteq> 0) [lo..<hi]"


section \<open>Arrays\<close>

text \<open>
  A two-dimensional array is its column count and the list of its rows; the row count is
  the length of that list, so an array without rows still has a width, as a numpy array
  of shape \<open>(0, n)\<close> has. An array is well formed when every row has that width. The
  column \<^verbatim>\<open>b\<close> (shape \<open>(m, 1)\<close>) and the row \<^verbatim>\<open>c\<close> (shape \<open>(1, n)\<close>) of a problem are
  lists of their entries.
\<close>

record matrix =
  ncols :: nat
  rws :: "real list list"

definition nrows :: "matrix \<Rightarrow> nat" where
  "nrows M = length (rws M)"

definition wf_matrix :: "matrix \<Rightarrow> bool" where
  "wf_matrix M = list_all (\<lambda>r. length r = ncols M) (rws M)"

text \<open>\<^verbatim>\<open>A[k, :]\<close>, \<^verbatim>\<open>A[:, i]\<close> and \<^verbatim>\<open>v[i]\<close> raise on an index past the end.\<close>

definition row_at :: "matrix \<Rightarrow> nat \<Rightarrow> error + real list" where
  "row_at M k = (if k < nrows M then Inr (rws M ! k) else Inl IndexError)"

definition col_at :: "matrix \<Rightarrow> nat \<Rightarrow> error + real list" where
  "col_at M i = (if i < ncols M then Inr (map (\<lambda>r. r ! i) (rws M)) else Inl IndexError)"

definition vec_at :: "real list \<Rightarrow> nat \<Rightarrow> error + real" where
  "vec_at v i = (if i < length v then Inr (v ! i) else Inl IndexError)"

text \<open>
  \<^verbatim>\<open>b[:, 0] += x * v\<close>: numpy adds entry by entry when the lengths agree, adds the single
  entry of a one-element \<open>v\<close> to every entry of \<open>b\<close>, and raises otherwise.
\<close>

definition add_scaled_vector :: "real list \<Rightarrow> real \<Rightarrow> real list \<Rightarrow> error + real list" where
  "add_scaled_vector b x v =
     (if length v = length b then Inr (map2 (\<lambda>bv av. bv + x * av) b v)
      else if length v = 1 then Inr (map (\<lambda>bv. bv + x * hd v) b)
      else Inl ValueError)"

text \<open>\<^verbatim>\<open>A[:, j] += x * A[:, i]\<close> and \<^verbatim>\<open>A[:, i] *= x\<close>, in place, for columns of the array.\<close>

definition add_scaled_column :: "matrix \<Rightarrow> nat \<Rightarrow> real \<Rightarrow> nat \<Rightarrow> matrix" where
  "add_scaled_column M j x i = M\<lparr>rws := map (\<lambda>r. r[j := r ! j + x * r ! i]) (rws M)\<rparr>"

definition scale_column :: "matrix \<Rightarrow> nat \<Rightarrow> real \<Rightarrow> matrix" where
  "scale_column M i x = M\<lparr>rws := map (\<lambda>r. r[i := r ! i * x]) (rws M)\<rparr>"

text \<open>\<^verbatim>\<open>A[np.ix_(rows, cols)]\<close>: a new array of the chosen rows and columns, in the order given.\<close>

definition ix_select :: "matrix \<Rightarrow> nat list \<Rightarrow> nat list \<Rightarrow> error + matrix" where
  "ix_select M rows cols =
     (if list_all (\<lambda>r. r < nrows M) rows \<and> list_all (\<lambda>j. j < ncols M) cols
      then Inr \<lparr>ncols = length cols, rws = map (\<lambda>r. map (\<lambda>j. rws M ! r ! j) cols) rows\<rparr>
      else Inl IndexError)"

definition vec_select :: "real list \<Rightarrow> nat list \<Rightarrow> error + real list" where
  "vec_select v idx =
     (if list_all (\<lambda>i. i < length v) idx then Inr (map (\<lambda>i. v ! i) idx) else Inl IndexError)"

section \<open>simplify_sedumi_model\<close>

text \<open>
  The function receives the arrays \<^verbatim>\<open>A\<close>, \<^verbatim>\<open>b\<close>, \<^verbatim>\<open>c\<close> by reference and its first pass
  updates them where they are (\<^verbatim>\<open>+=\<close>, \<^verbatim>\<open>*=\<close> on slices). The state of that pass is
  these three arrays and the local \<^verbatim>\<open>offset\<close>.
\<close>

record work =
  w_A :: matrix
  w_b :: "real list"
  w_c :: "real list"
  w_offset :: real

text \<open>
  The body of \<^verbatim>\<open>for ctr_k in range(n_ctr)\<close>, lines 159 to 180. The row is tested with
  \<^verbatim>\<open>n_elig = n_free\<close>; when it has a candidate \<open>i\<close>, \<^verbatim>\<open>b\<close> and \<^verbatim>\<open>offset\<close> are updated with
  \<^verbatim>\<open>factor = 1.*bk/aki\<close>, then (with a second index \<open>j\<close>) column and entry \<open>j\<close> with
  \<^verbatim>\<open>factor = 1.*akj/aki\<close>, and last column \<open>i\<close> of \<^verbatim>\<open>A\<close> and entry \<open>i\<close> of \<^verbatim>\<open>c\<close> are
  multiplied by zero.
\<close>

definition eliminate_row :: "int \<Rightarrow> bool \<Rightarrow> nat \<Rightarrow> work \<Rightarrow> error + work" where
  "eliminate_row n_free allow_nonzero_b ctr_k w =
     (case row_at (w_A w) ctr_k of Inl e \<Rightarrow> Inl e | Inr g \<Rightarrow>
      case vec_at (w_b w) ctr_k of Inl e \<Rightarrow> Inl e | Inr bk \<Rightarrow>
      case check_eliminatibility g bk (Some n_free) allow_nonzero_b of Inl e \<Rightarrow> Inl e
      | Inr (None, _) \<Rightarrow> Inr w
      | Inr (Some i, j_opt) \<Rightarrow>
          (let aki = g ! i;
               factor = 1 * bk / aki
           in case col_at (w_A w) i of Inl e \<Rightarrow> Inl e | Inr a_i \<Rightarrow>
              case add_scaled_vector (w_b w) (- factor) a_i of Inl e \<Rightarrow> Inl e | Inr b' \<Rightarrow>
              case vec_at (w_c w) i of Inl e \<Rightarrow> Inl e | Inr c_i \<Rightarrow>
              (let offset' = w_offset w + - factor * c_i
               in case
                    (case j_opt of
                       None \<Rightarrow> Inr (w_A w, w_c w)
                     | Some j \<Rightarrow>
                         (let akj = g ! j;
                              factor = 1 * akj / aki
                          in case vec_at (w_c w) j of Inl e \<Rightarrow> Inl e | Inr c_j \<Rightarrow>
                             Inr (add_scaled_column (w_A w) j (- factor) i,
                                  (w_c w)[j := c_j + - factor * c_i])))
                  of Inl e \<Rightarrow> Inl e
                  | Inr (A', c') \<Rightarrow>
                      Inr \<lparr>w_A = scale_column A' i 0, w_b = b', w_c = c'[i := c' ! i * 0],
                           w_offset = offset'\<rparr>)))"

fun elimination_pass :: "int \<Rightarrow> bool \<Rightarrow> nat list \<Rightarrow> work \<Rightarrow> error + work" where
  "elimination_pass n_free allow_nonzero_b [] w = Inr w"
| "elimination_pass n_free allow_nonzero_b (ctr_k # ks) w =
     (case eliminate_row n_free allow_nonzero_b ctr_k w of
        Inl e \<Rightarrow> Inl e
      | Inr w' \<Rightarrow> elimination_pass n_free allow_nonzero_b ks w')"

text \<open>
  \<^verbatim>\<open>not abs(A[:, col]).any()\<close> and \<^verbatim>\<open>not abs(A[row, :]).any()\<close>. Python reads the column
  (or row) only when the test before \<^verbatim>\<open>and\<close> holds.
\<close>

definition col_is_zero :: "matrix \<Rightarrow> nat \<Rightarrow> error + bool" where
  "col_is_zero M col = (case col_at M col of Inl e \<Rightarrow> Inl e | Inr v \<Rightarrow> Inr (\<not> any_nonzero v))"

definition row_is_zero :: "matrix \<Rightarrow> nat \<Rightarrow> error + bool" where
  "row_is_zero M row = (case row_at M row of Inl e \<Rightarrow> Inl e | Inr v \<Rightarrow> Inr (\<not> any_nonzero v))"

definition and_then :: "bool \<Rightarrow> error + bool \<Rightarrow> error + bool" where
  "and_then p q = (if p then q else Inr False)"

text \<open>
  The loop \<^verbatim>\<open>for col in range(n_vars)\<close>, lines 187 to 199, with its three
  accumulators \<^verbatim>\<open>n_deleted_f\<close>, \<^verbatim>\<open>n_deleted_l\<close> and \<^verbatim>\<open>cols_to_keep\<close>.
\<close>

fun column_pass ::
  "matrix \<Rightarrow> real list \<Rightarrow> int \<Rightarrow> int \<Rightarrow> nat list \<Rightarrow> nat \<times> nat \<times> nat list
   \<Rightarrow> error + (nat \<times> nat \<times> nat list)" where
  "column_pass A c n_free vars_fl [] acc = Inr acc"
| "column_pass A c n_free vars_fl (col # cols) (n_deleted_f, n_deleted_l, cols_to_keep) =
     (case vec_at c col of Inl e \<Rightarrow> Inl e | Inr c_col \<Rightarrow>
      (let free_and_deletable = (int col < n_free \<and> c_col = 0);
           nneg_and_deletable = (int col \<ge> n_free \<and> int col < vars_fl \<and> c_col \<ge> 0)
       in case and_then free_and_deletable (col_is_zero A col) of
            Inl e \<Rightarrow> Inl e
          | Inr True \<Rightarrow>
              column_pass A c n_free vars_fl cols (n_deleted_f + 1, n_deleted_l, cols_to_keep)
          | Inr False \<Rightarrow>
              (case and_then nneg_and_deletable (col_is_zero A col) of
                 Inl e \<Rightarrow> Inl e
               | Inr True \<Rightarrow>
                   column_pass A c n_free vars_fl cols
                     (n_deleted_f, n_deleted_l + 1, cols_to_keep)
               | Inr False \<Rightarrow>
                   column_pass A c n_free vars_fl cols
                     (n_deleted_f, n_deleted_l, cols_to_keep @ [col]))))"

text \<open>The loop \<^verbatim>\<open>for row in range(n_ctr)\<close>, lines 204 to 209.\<close>

fun row_pass :: "matrix \<Rightarrow> real list \<Rightarrow> nat list \<Rightarrow> nat list \<Rightarrow> error + nat list" where
  "row_pass A b [] rows_to_keep = Inr rows_to_keep"
| "row_pass A b (row # rows) rows_to_keep =
     (case vec_at b row of Inl e \<Rightarrow> Inl e | Inr b_row \<Rightarrow>
      case and_then (b_row = 0) (row_is_zero A row) of
        Inl e \<Rightarrow> Inl e
      | Inr True \<Rightarrow> row_pass A b rows rows_to_keep
      | Inr False \<Rightarrow> row_pass A b rows (rows_to_keep @ [row]))"

text \<open>
  Lines 183 to 222 on the arrays the first pass has left: the column pass, the row pass,
  the three selections, the assertion and the new cone descriptor. The counts \<^verbatim>\<open>n_vars\<close> and
  \<^verbatim>\<open>n_ctr\<close> are read before the first pass, which keeps the lengths of \<^verbatim>\<open>c\<close> and \<^verbatim>\<open>b\<close>.
\<close>

definition prune ::
  "work \<Rightarrow> cone \<Rightarrow> error + (matrix \<times> real list \<times> real list \<times> cone \<times> real)" where
  "prune w K =
     (let n_free = K_f K; n_vars = length (w_c w); n_ctr = length (w_b w);
          vars_fl = n_free + K_l K
      in case column_pass (w_A w) (w_c w) n_free vars_fl [0..<n_vars] (0, 0, []) of
           Inl e \<Rightarrow> Inl e
         | Inr (n_deleted_f, n_deleted_l, cols_to_keep) \<Rightarrow>
      case row_pass (w_A w) (w_b w) [0..<n_ctr] [] of Inl e \<Rightarrow> Inl e | Inr rows_to_keep \<Rightarrow>
      case ix_select (w_A w) rows_to_keep cols_to_keep of Inl e \<Rightarrow> Inl e | Inr A' \<Rightarrow>
      case vec_select (w_b w) rows_to_keep of Inl e \<Rightarrow> Inl e | Inr b' \<Rightarrow>
      case vec_select (w_c w) cols_to_keep of Inl e \<Rightarrow> Inl e | Inr c' \<Rightarrow>
        if length cols_to_keep + n_deleted_f + n_deleted_l = 0 then Inl AssertionError
        else Inr (A', b', c',
                  \<lparr>K_f = K_f K - int n_deleted_f, K_l = K_l K - int n_deleted_l, K_s = K_s K\<rparr>,
                  w_offset w))"

text \<open>
  \<^verbatim>\<open>simplify_sedumi_model(A, b, c, K, allow_nonzero_b=False)\<close>. The result is a pair: the
  arrays \<^verbatim>\<open>A\<close>, \<^verbatim>\<open>b\<close>, \<^verbatim>\<open>c\<close> of the caller as the call leaves them, and the tuple
  \<^verbatim>\<open>(A, b, c, K, offset)\<close> it returns.
\<close>

definition simplify_sedumi_model ::
  "matrix \<Rightarrow> real list \<Rightarrow> real list \<Rightarrow> cone \<Rightarrow> bool
   \<Rightarrow> error + ((matrix \<times> real list \<times> real list)
              \<times> (matrix \<times> real list \<times> real list \<times> cone \<times> real))" where
  "simplify_sedumi_model A b c K allow_nonzero_b =
     (let n_free = K_f K; n_ctr = length b
      in case elimination_pass n_free allow_nonzero_b [0..<n_ctr]
                \<lparr>w_A = A, w_b = b, w_c = c, w_offset = 0\<rparr> of
           Inl e \<Rightarrow> Inl e
         | Inr w \<Rightarrow>
             (case prune w K of
                Inl e \<Rightarrow> Inl e
              | Inr res \<Rightarrow> Inr ((w_A w, w_b w, w_c w), res)))"

text \<open>A problem in Sedumi format: \<^verbatim>\<open>A\<close> is \<open>m \<times> n\<close>, \<^verbatim>\<open>b\<close> has \<open>m\<close> entries, \<^verbatim>\<open>c\<close> has \<open>n\<close>.\<close>

definition wf_problem :: "matrix \<Rightarrow> real list \<Rightarrow> real list \<Rightarrow> bool" where
  "wf_problem A b c = (wf_matrix A \<and> nrows A = length b \<and> ncols A = length c)"

text \<open>
  The state the loop body leaves for a row with candidate \<open>i\<close> and optional second
  index \<open>j_opt\<close>, given the updated \<^verbatim>\<open>b\<close>; it names the value \<open>eliminate_row\<close> computes.
\<close>

definition elim_result :: "work \<Rightarrow> nat \<Rightarrow> nat \<Rightarrow> nat option \<Rightarrow> real list \<Rightarrow> work" where
  "elim_result w k i j_opt b' =
     (let g = rws (w_A w) ! k in
      \<lparr>w_A = scale_column
               (case j_opt of None \<Rightarrow> w_A w
                | Some j \<Rightarrow> add_scaled_column (w_A w) j (- (g ! j / g ! i)) i) i 0,
       w_b = b',
       w_c = (case j_opt of None \<Rightarrow> w_c w
              | Some j \<Rightarrow> (w_c w)[j := w_c w ! j + - (g ! j / g ! i) * w_c w ! i])[i := 0],
       w_offset = w_offset w + - (w_b w ! k / g ! i) * w_c w ! i\<rparr>)"

section \<open>The pruning pass as the specification words it\<close>

text \<open>
  A column is dropped when all its entries are zero and it is either a free column with
  objective coefficient zero or a nonnegative column with objective coefficient at least
  zero; a row is dropped when its right-hand side and all its coefficients are zero. The
  survivors are the other indices, in increasing order.
\<close>

definition column_zero :: "matrix \<Rightarrow> nat \<Rightarrow> bool" where
  "column_zero M col = list_all (\<lambda>r. r ! col = 0) (rws M)"

definition dropped_free :: "matrix \<Rightarrow> real list \<Rightarrow> cone \<Rightarrow> nat \<Rightarrow> bool" where
  "dropped_free A c K col = (int col < K_f K \<and> c ! col = 0 \<and> column_zero A col)"

definition dropped_nneg :: "matrix \<Rightarrow> real list \<Rightarrow> cone \<Rightarrow> nat \<Rightarrow> bool" where
  "dropped_nneg A c K col =
     (K_f K \<le> int col \<and> int col < K_f K + K_l K \<and> c ! col \<ge> 0 \<and> column_zero A col)"

definition dropped_row :: "matrix \<Rightarrow> real list \<Rightarrow> nat \<Rightarrow> bool" where
  "dropped_row A b row = (b ! row = 0 \<and> list_all (\<lambda>x. x = 0) (rws A ! row))"

definition kept_cols :: "matrix \<Rightarrow> real list \<Rightarrow> cone \<Rightarrow> nat list" where
  "kept_cols A c K =
     filter (\<lambda>col. \<not> dropped_free A c K col \<and> \<not> dropped_nneg A c K col) [0..<length c]"

definition kept_rows :: "matrix \<Rightarrow> real list \<Rightarrow> nat list" where
  "kept_rows A b = filter (\<lambda>row. \<not> dropped_row A b row) [0..<length b]"

definition dropped_column :: "matrix \<Rightarrow> real list \<Rightarrow> cone \<Rightarrow> nat \<Rightarrow> bool" where
  "dropped_column A c K col =
     (column_zero A col \<and>
      (int col < K_f K \<and> c ! col = 0
       \<or> K_f K \<le> int col \<and> int col < K_f K + K_l K \<and> c ! col \<ge> 0))"

text \<open>The array and the cone descriptor the pruning pass builds from the survivors.\<close>

definition pruned_A :: "matrix \<Rightarrow> real list \<Rightarrow> real list \<Rightarrow> cone \<Rightarrow> matrix" where
  "pruned_A A b c K =
     \<lparr>ncols = length (kept_cols A c K),
      rws = map (\<lambda>r. map (\<lambda>j. rws A ! r ! j) (kept_cols A c K)) (kept_rows A b)\<rparr>"

definition pruned_K :: "matrix \<Rightarrow> real list \<Rightarrow> cone \<Rightarrow> cone" where
  "pruned_K A c K =
     \<lparr>K_f = K_f K - int (length (filter (dropped_free A c K) [0..<length c])),
      K_l = K_l K - int (length (filter (dropped_nneg A c K) [0..<length c])),
      K_s = K_s K\<rparr>"

section \<open>make_sedumi_format_problem\<close>

text \<open>
  The source problem is the mapping \<^verbatim>\<open>problem_data\<close> with the keys \<^verbatim>\<open>A\<close>, \<^verbatim>\<open>b\<close>, \<^verbatim>\<open>G\<close>,
  \<^verbatim>\<open>h\<close>, \<^verbatim>\<open>c\<close> (cvxopt matrices, two-dimensional) and \<^verbatim>\<open>dims\<close> (a mapping with the keys
  \<^verbatim>\<open>l\<close>, \<^verbatim>\<open>q\<close>, \<^verbatim>\<open>s\<close>).
\<close>

record dims =
  dims_l :: int
  dims_q :: "int list"
  dims_s :: "int list"

record problem_data =
  pd_A :: matrix
  pd_b :: matrix
  pd_G :: matrix
  pd_h :: matrix
  pd_c :: matrix
  pd_dims :: dims

text \<open>
  \<^verbatim>\<open>cvxmat(1.*M)\<close> is a dense matrix of floating point numbers with the entries of \<open>M\<close>; on
  exact reals it is \<open>M\<close>. \<^verbatim>\<open>M.T\<close> is the transpose, \<^verbatim>\<open>len(M)\<close> the number of entries of a
  cvxopt matrix, \<^verbatim>\<open>M[:k, :]\<close> and \<^verbatim>\<open>M[k:, :]\<close> its first \<open>k\<close> rows and the rest.
\<close>

definition cvxmat :: "matrix \<Rightarrow> matrix" where
  "cvxmat M = M"

definition transpose_m :: "matrix \<Rightarrow> matrix" where
  "transpose_m M = \<lparr>ncols = nrows M, rws = map (\<lambda>j. map (\<lambda>r. r ! j) (rws M)) [0..<ncols M]\<rparr>"

definition len_m :: "matrix \<Rightarrow> nat" where
  "len_m M = nrows M * ncols M"

definition take_rows :: "nat \<Rightarrow> matrix \<Rightarrow> matrix" where
  "take_rows k M = M\<lparr>rws := take k (rws M)\<rparr>"

definition drop_rows :: "nat \<Rightarrow> matrix \<Rightarrow> matrix" where
  "drop_rows k M = M\<lparr>rws := drop k (rws M)\<rparr>"

text \<open>
  \<^verbatim>\<open>problem_data_prep\<close> stores the converted matrices back under their keys of the
  caller's mapping, \<^verbatim>\<open>c\<close> transposed, and returns that mapping.
\<close>

definition problem_data_prep :: "problem_data \<Rightarrow> problem_data" where
  "problem_data_prep pd =
     pd\<lparr>pd_A := cvxmat (pd_A pd), pd_b := cvxmat (pd_b pd), pd_G := cvxmat (pd_G pd),
        pd_h := cvxmat (pd_h pd), pd_c := transpose_m (cvxmat (pd_c pd))\<rparr>"

text \<open>\<^verbatim>\<open>np.zeros((r, c))\<close> and \<^verbatim>\<open>np.eye(n)\<close>.\<close>

definition zeros :: "nat \<Rightarrow> nat \<Rightarrow> matrix" where
  "zeros r c = \<lparr>ncols = c, rws = replicate r (replicate c 0)\<rparr>"

definition eye :: "nat \<Rightarrow> matrix" where
  "eye n = \<lparr>ncols = n, rws = map (\<lambda>i. map (\<lambda>j. if i = j then 1 else 0) [0..<n]) [0..<n]\<rparr>"

text \<open>
  numpy broadcasting of a two-dimensional value to the shape \<open>(R, C)\<close> of the slice it is
  assigned to: each dimension of the value is that of the slice or is 1; any other shape
  raises.
\<close>

definition broadcast_to :: "matrix \<Rightarrow> nat \<Rightarrow> nat \<Rightarrow> error + real list list" where
  "broadcast_to V R C =
     (if (nrows V = R \<or> nrows V = 1) \<and> (ncols V = C \<or> ncols V = 1)
      then Inr (map (\<lambda>i. map (\<lambda>j. rws V ! (if nrows V = 1 then 0 else i)
                                       ! (if ncols V = 1 then 0 else j)) [0..<C]) [0..<R])
      else Inl ValueError)"

text \<open>
  \<^verbatim>\<open>M[r0:r0+R, c0:c0+C] = V\<close> for a slice that lies inside \<open>M\<close>: the entries of the slice
  become those of the broadcast value, the others stay.
\<close>

definition set_block :: "matrix \<Rightarrow> nat \<Rightarrow> nat \<Rightarrow> nat \<Rightarrow> nat \<Rightarrow> matrix \<Rightarrow> error + matrix" where
  "set_block M r0 c0 R C V =
     (case broadcast_to V R C of
        Inl e \<Rightarrow> Inl e
      | Inr blk \<Rightarrow>
          Inr (M\<lparr>rws := map (\<lambda>i. map (\<lambda>j. if r0 \<le> i \<and> i < r0 + R \<and> c0 \<le> j \<and> j < c0 + C
                                          then blk ! (i - r0) ! (j - c0)
                                          else rws M ! i ! j) [0..<ncols M])
                          [0..<nrows M]\<rparr>))"

text \<open>One statement after the other: an exception ends the sequence.\<close>

definition and_next :: "error + 'a \<Rightarrow> ('a \<Rightarrow> error + 'b) \<Rightarrow> error + 'b" where
  "and_next r k = (case r of Inl e \<Rightarrow> Inl e | Inr x \<Rightarrow> k x)"

text \<open>
  The expansion step, lines 72 to 112. A negative \<^verbatim>\<open>dims['l']\<close> raises in
  \<^verbatim>\<open>np.eye(ni)\<close> at the latest (a negative dimension), with nothing but shape errors
  before it; with \<^verbatim>\<open>ni\<close> at least 0 every slice written lies inside its array. The
  result holds \<^verbatim>\<open>A_star\<close>, \<^verbatim>\<open>b_star\<close> (one column), \<^verbatim>\<open>c_star\<close> (one row) and \<^verbatim>\<open>K\<close>.
\<close>

definition expand :: "problem_data \<Rightarrow> error + (matrix \<times> matrix \<times> matrix \<times> cone)" where
  "expand pd =
     (let dims = pd_dims pd;
          nx = len_m (pd_c pd);
          ni = dims_l dims;
          ne = len_m (pd_b pd);
          num_sdp_vars = sum_list (map (\<lambda>s. s * s) (dims_s dims))
      in if ni < 0 then Inl ValueError
         else
          (let ni = nat ni; nsdp = nat num_sdp_vars;
               num_sedumi_vars = nx + ni + nsdp
           in
           and_next (set_block (zeros 1 num_sedumi_vars) 0 0 1 nx (pd_c pd)) (\<lambda>c_star.
           and_next (set_block (zeros (ne + ni + nsdp) num_sedumi_vars) 0 0 ne nx (pd_A pd))
             (\<lambda>A_star.
           and_next (set_block (zeros (ne + ni + nsdp) 1) 0 0 ne 1 (pd_b pd)) (\<lambda>b_star.
           and_next (set_block A_star ne 0 ni nx (take_rows ni (pd_G pd))) (\<lambda>A_star.
           and_next (set_block A_star ne nx ni ni (eye ni)) (\<lambda>A_star.
           and_next (set_block b_star ne 0 ni 1 (take_rows ni (pd_h pd))) (\<lambda>b_star.
           and_next (set_block A_star (ne + ni) 0 nsdp nx (drop_rows ni (pd_G pd))) (\<lambda>A_star.
           and_next (set_block A_star (ne + ni) (nx + ni) nsdp nsdp (eye nsdp)) (\<lambda>A_star.
           and_next (set_block b_star (ne + ni) 0 nsdp 1 (drop_rows ni (pd_h pd))) (\<lambda>b_star.
           Inr (A_star, b_star, c_star,
                \<lparr>K_f = int nx, K_l = dims_l dims, K_s = dims_s dims\<rparr>))))))))))))"

text \<open>
  The entries of a one-column array and of a one-row array, as \<open>simplify_sedumi_model\<close>
  reads them (\<^verbatim>\<open>b[k, 0]\<close>, \<^verbatim>\<open>c[0, i]\<close>).
\<close>

definition column_entries :: "matrix \<Rightarrow> real list" where
  "column_entries M = map (\<lambda>r. r ! 0) (rws M)"

definition row_entries :: "matrix \<Rightarrow> real list" where
  "row_entries M = rws M ! 0"

text \<open>
  \<^verbatim>\<open>make_sedumi_format_problem(problem_data, simplify=True)\<close>. The result is a pair: the
  caller's mapping as the call leaves it, and what the call returns or raises. The name
  \<^verbatim>\<open>obj_cst\<close> is bound in the \<^verbatim>\<open>if simplify:\<close> branch only, and the assertion after that
  branch reads it.
\<close>

definition make_sedumi_format_problem ::
  "problem_data \<Rightarrow> bool
   \<Rightarrow> problem_data \<times> (error + (matrix \<times> real list \<times> real list \<times> cone \<times> real))" where
  "make_sedumi_format_problem problem_data simplify =
     (let problem_data = problem_data_prep problem_data;
          dims = pd_dims problem_data
      in (problem_data,
          if dims_q dims \<noteq> [] then Inl AssertionError
          else
            case expand problem_data of
              Inl e \<Rightarrow> Inl e
            | Inr (A_star, b_star, c_star, K) \<Rightarrow>
                if simplify then
                  (case simplify_sedumi_model A_star (column_entries b_star)
                          (row_entries c_star) K False of
                     Inl e \<Rightarrow> Inl e
                   | Inr (_, (A_star, b_star, c_star, K, obj_cst)) \<Rightarrow>
                       if obj_cst = 0
                       then map_sum id snd (simplify_sedumi_model A_star b_star c_star K False)
                       else Inl AssertionError)
                else Inl UnboundLocalError))"


text \<open>
  A source problem as the specification describes it: \<^verbatim>\<open>c\<close> a column of \<open>n_x\<close> entries,
  \<^verbatim>\<open>A\<close> of shape \<open>n_e \<times> n_x\<close> with \<^verbatim>\<open>b\<close> a column of \<open>n_e\<close> entries, and \<^verbatim>\<open>G\<close> of shape
  \<open>(l + \<Sum>s\<^sup>2) \<times> n_x\<close> with \<^verbatim>\<open>h\<close> a column of as many entries; \<open>l\<close> is not negative.
\<close>

definition cone_size :: "cone \<Rightarrow> int" where
  "cone_size K = K_f K + K_l K + sum_list (map (\<lambda>s. s * s) (K_s K))"

definition wf_source :: "problem_data \<Rightarrow> bool" where
  "wf_source pd =
     (let d = pd_dims pd;
          n_x = nrows (pd_c pd); n_e = nrows (pd_b pd);
          n_g = dims_l d + sum_list (map (\<lambda>s. s * s) (dims_s d))
      in wf_matrix (pd_A pd) \<and> wf_matrix (pd_b pd) \<and> wf_matrix (pd_G pd)
         \<and> wf_matrix (pd_h pd) \<and> wf_matrix (pd_c pd)
         \<and> ncols (pd_c pd) = 1 \<and> ncols (pd_b pd) = 1 \<and> ncols (pd_h pd) = 1
         \<and> nrows (pd_A pd) = n_e \<and> ncols (pd_A pd) = n_x
         \<and> ncols (pd_G pd) = n_x \<and> int (nrows (pd_G pd)) = n_g
         \<and> int (nrows (pd_h pd)) = n_g \<and> 0 \<le> dims_l d)"

text \<open>
  The expanded system as the specification lays it out: the variables are the original
  \<open>x\<close>, then the inequality slacks, then the SDP slacks; the rows are \<open>[A | 0 | 0]\<close>,
  \<open>[G_l | I | 0]\<close> and \<open>[G_s | 0 | I]\<close> with right-hand sides \<open>b\<close>, \<open>h_l\<close>, \<open>h_s\<close>; the
  objective is \<open>[c, 0, 0]\<close> and the cone descriptor \<open>{f: n_x, l: dims.l, s: dims.s}\<close>.
\<close>

definition unit_row :: "nat \<Rightarrow> nat \<Rightarrow> real list" where
  "unit_row n i = (replicate n 0)[i := 1]"

definition expanded_spec :: "problem_data \<Rightarrow> matrix \<times> real list \<times> real list \<times> cone" where
  "expanded_spec pd =
     (let d = pd_dims pd;
          n_x = nrows (pd_c pd);
          n_i = nat (dims_l d);
          n_sdp = nat (sum_list (map (\<lambda>s. s * s) (dims_s d)));
          G = rws (pd_G pd);
          h = column_entries (pd_h pd)
      in (\<lparr>ncols = n_x + n_i + n_sdp,
           rws = map (\<lambda>r. r @ replicate n_i 0 @ replicate n_sdp 0) (rws (pd_A pd))
               @ map (\<lambda>i. G ! i @ unit_row n_i i @ replicate n_sdp 0) [0..<n_i]
               @ map (\<lambda>i. G ! (n_i + i) @ replicate n_i 0 @ unit_row n_sdp i) [0..<n_sdp]\<rparr>,
          column_entries (pd_b pd) @ take n_i h @ drop n_i h,
          column_entries (pd_c pd) @ replicate n_i 0 @ replicate n_sdp 0,
          \<lparr>K_f = int n_x, K_l = dims_l d, K_s = dims_s d\<rparr>))"

text \<open>
  The array after a slice assignment whose value has exactly the shape of the slice, and
  the arrays \<^verbatim>\<open>A_star\<close> and \<^verbatim>\<open>b_star\<close> as the sequence of such assignments that the
  expansion step performs on a well-formed source problem.
\<close>

definition put :: "matrix \<Rightarrow> nat \<Rightarrow> nat \<Rightarrow> matrix \<Rightarrow> matrix" where
  "put M r0 c0 V =
     M\<lparr>rws := map (\<lambda>i. map (\<lambda>j. if r0 \<le> i \<and> i < r0 + nrows V \<and> c0 \<le> j \<and> j < c0 + ncols V
                                then rws V ! (i - r0) ! (j - c0)
                                else rws M ! i ! j) [0..<ncols M]) [0..<nrows M]\<rparr>"

definition expanded_A :: "problem_data \<Rightarrow> nat \<Rightarrow> nat \<Rightarrow> nat \<Rightarrow> nat \<Rightarrow> matrix" where
  "expanded_A pd nx ne ni nsdp =
     put (put (put (put (put (zeros (ne + ni + nsdp) (nx + ni + nsdp)) 0 0 (pd_A pd))
                      ne 0 (take_rows ni (pd_G pd)))
                 ne nx (eye ni))
            (ne + ni) 0 (drop_rows ni (pd_G pd)))
       (ne + ni) (nx + ni) (eye nsdp)"

definition expanded_b :: "problem_data \<Rightarrow> nat \<Rightarrow> nat \<Rightarrow> nat \<Rightarrow> matrix" where
  "expanded_b pd ne ni nsdp =
     put (put (put (zeros (ne + ni + nsdp) 1) 0 0 (pd_b pd)) ne 0 (take_rows ni (pd_h pd)))
       (ne + ni) 0 (drop_rows ni (pd_h pd))"

section \<open>The eliminability test agrees with its specification\<close>

lemma skip_zeros_unfold:
  "skip_zeros g j = (if j < length g \<and> g ! j = 0 then skip_zeros g (Suc j) else j)"
  by (subst skip_zeros.simps) simp

lemma skip_zeros_nonzeros:
  "j \<le> length g \<Longrightarrow>
   nonzeros_from g j (length g) =
     (if skip_zeros g j = length g then []
      else skip_zeros g j # nonzeros_from g (skip_zeros g j + 1) (length g))"
proof (induction g j rule: skip_zeros.induct)
  case (1 g j)
  show ?case
  proof (cases "j < length g \<and> g ! j = 0")
    case True
    then have "nonzeros_from g j (length g) = nonzeros_from g (j + 1) (length g)"
      by (simp add: nonzeros_from_def upt_conv_Cons)
    moreover have "skip_zeros g j = skip_zeros g (j + 1)"
      using True by (subst skip_zeros_unfold) simp
    ultimately show ?thesis using 1 True by simp
  next
    case False
    then have sz: "skip_zeros g j = j" by (subst skip_zeros_unfold) auto
    show ?thesis
    proof (cases "j < length g")
      case True
      with False have "g ! j \<noteq> 0" by simp
      with True sz show ?thesis by (simp add: nonzeros_from_def upt_conv_Cons)
    next
      case False
      with 1 sz show ?thesis by (simp add: nonzeros_from_def)
    qed
  qed
qed

lemma any_nonzero_iff: "any_nonzero v \<longleftrightarrow> (\<exists>x\<in>set v. x \<noteq> 0)"
  by (simp add: any_nonzero_def list_ex_iff)

lemma any_nonzero_drop:
  "any_nonzero (drop k g) \<longleftrightarrow> nonzeros_from g k (length g) \<noteq> []"
proof -
  have "any_nonzero (drop k g) \<longleftrightarrow> (\<exists>i. k \<le> i \<and> i < length g \<and> g ! i \<noteq> 0)"
  proof
    assume "any_nonzero (drop k g)"
    then obtain x where "x \<in> set (drop k g)" "x \<noteq> 0"
      by (auto simp: any_nonzero_iff)
    then obtain i where "i < length (drop k g)" "drop k g ! i = x"
      by (auto simp: in_set_conv_nth)
    with \<open>x \<noteq> 0\<close> have "k \<le> k + i \<and> k + i < length g \<and> g ! (k + i) \<noteq> 0" by auto
    then show "\<exists>i. k \<le> i \<and> i < length g \<and> g ! i \<noteq> 0" by blast
  next
    assume "\<exists>i. k \<le> i \<and> i < length g \<and> g ! i \<noteq> 0"
    then obtain i where i: "k \<le> i" "i < length g" "g ! i \<noteq> 0" by blast
    then have "drop k g ! (i - k) = g ! i" "i - k < length (drop k g)" by auto
    then have "g ! i \<in> set (drop k g)" by (metis nth_mem)
    with i show "any_nonzero (drop k g)" by (auto simp: any_nonzero_iff)
  qed
  also have "\<dots> \<longleftrightarrow> nonzeros_from g k (length g) \<noteq> []"
    by (auto simp: nonzeros_from_def filter_empty_conv)
  finally show ?thesis .
qed

lemma check_eliminatibility_loop_spec:
  "lo \<le> hi \<Longrightarrow> hi \<le> length g \<Longrightarrow>
   check_eliminatibility_loop g [lo..<hi] =
     Inr (case nonzeros_from g lo hi of
            [] \<Rightarrow> (None, None)
          | i # _ \<Rightarrow>
              (case nonzeros_from g (i + 1) (length g) of
                 [] \<Rightarrow> (Some i, None)
               | [j] \<Rightarrow> (Some i, Some j)
               | _ # _ # _ \<Rightarrow> (None, None)))"
proof (induction "hi - lo" arbitrary: lo)
  case 0
  then show ?case by (simp add: nonzeros_from_def)
next
  case (Suc d)
  then have lt: "lo < hi" by simp
  then have upt: "[lo..<hi] = lo # [lo + 1..<hi]" by (simp add: upt_conv_Cons)
  show ?case
  proof (cases "g ! lo = 0")
    case True
    have "check_eliminatibility_loop g [lo..<hi] = check_eliminatibility_loop g [lo + 1..<hi]"
      using True lt Suc.prems by (simp add: upt)
    moreover have "nonzeros_from g lo hi = nonzeros_from g (lo + 1) hi"
      using True by (simp add: nonzeros_from_def upt)
    moreover have "d = hi - (lo + 1)" "lo + 1 \<le> hi" using Suc.hyps(2) lt by auto
    ultimately show ?thesis using Suc.hyps(1)[of "lo + 1"] Suc.prems by simp
  next
    case False
    then have nz: "nonzeros_from g lo hi = lo # nonzeros_from g (lo + 1) hi"
      by (simp add: nonzeros_from_def upt)
    have le: "lo + 1 \<le> length g" using lt Suc.prems by simp
    show ?thesis
      using False lt Suc.prems skip_zeros_nonzeros[OF le]
        any_nonzero_drop[of "skip_zeros g (lo + 1) + 1" g]
      by (auto simp: upt nz Let_def split: list.splits)
  qed
qed



section \<open>The elimination pass\<close>

lemma skip_zeros_stop:
  "j \<le> length g \<Longrightarrow>
   j \<le> skip_zeros g j \<and> skip_zeros g j \<le> length g \<and>
   (skip_zeros g j < length g \<longrightarrow> g ! skip_zeros g j \<noteq> 0)"
proof (induction g j rule: skip_zeros.induct)
  case (1 g j)
  show ?case
  proof (cases "j < length g \<and> g ! j = 0")
    case True
    then have "skip_zeros g j = skip_zeros g (j + 1)" by (subst skip_zeros_unfold) simp
    with 1 True show ?thesis by auto
  next
    case False
    then have "skip_zeros g j = j" by (subst skip_zeros_unfold) auto
    with 1 False show ?thesis by auto
  qed
qed

lemma check_eliminatibility_loop_SomeD:
  "check_eliminatibility_loop g idx = Inr (Some i, j_opt) \<Longrightarrow>
   i \<in> set idx \<and> i < length g \<and> g ! i \<noteq> 0 \<and>
   (\<forall>j. j_opt = Some j \<longrightarrow> i < j \<and> j < length g \<and> g ! j \<noteq> 0)"
proof (induction idx)
  case Nil
  then show ?case by simp
next
  case (Cons a idx)
  show ?case
  proof (cases "length g \<le> a")
    case True
    with Cons.prems show ?thesis by simp
  next
    case False
    note inr = this
    show ?thesis
    proof (cases "g ! a = 0")
      case True
      with inr Cons show ?thesis by auto
    next
      case False
      have "a + 1 \<le> length g" using inr by simp
      from skip_zeros_stop[OF this] False inr Cons.prems show ?thesis
        by (auto simp: Let_def split: if_splits)
    qed
  qed
qed

lemma check_eliminatibility_SomeD:
  assumes "check_eliminatibility g h (Some n_elig) a = Inr (Some i, j_opt)"
  shows "int i < n_elig" "i < length g" "g ! i \<noteq> 0"
    "j_opt = Some j \<Longrightarrow> i < j \<and> j < length g \<and> g ! j \<noteq> 0"
    "\<not> a \<Longrightarrow> h = 0"
proof -
  from assms have loop: "check_eliminatibility_loop g [0..<nat n_elig] = Inr (Some i, j_opt)"
    and h: "\<not> a \<Longrightarrow> h = 0"
    by (auto simp: check_eliminatibility_def split: if_splits)
  from check_eliminatibility_loop_SomeD[OF loop]
  show "int i < n_elig" "i < length g" "g ! i \<noteq> 0"
    "j_opt = Some j \<Longrightarrow> i < j \<and> j < length g \<and> g ! j \<noteq> 0"
    by auto
  show "\<not> a \<Longrightarrow> h = 0" by (rule h)
qed

lemma eliminate_row_cases:
  assumes "eliminate_row n_free a k w = Inr w'"
  shows "k < nrows (w_A w) \<and> k < length (w_b w) \<and>
    ((\<exists>jo. check_eliminatibility (rws (w_A w) ! k) (w_b w ! k) (Some n_free) a = Inr (None, jo))
        \<and> w' = w
     \<or> (\<exists>i jo b'. check_eliminatibility (rws (w_A w) ! k) (w_b w ! k) (Some n_free) a
                     = Inr (Some i, jo)
          \<and> i < ncols (w_A w) \<and> i < length (w_c w)
          \<and> add_scaled_vector (w_b w) (- (w_b w ! k / rws (w_A w) ! k ! i))
                (map (\<lambda>r. r ! i) (rws (w_A w))) = Inr b'
          \<and> (\<forall>j. jo = Some j \<longrightarrow> j < length (w_c w))
          \<and> w' = elim_result w k i jo b'))"
  using assms
  unfolding eliminate_row_def row_at_def vec_at_def col_at_def elim_result_def
  by (auto simp: Let_def split: sum.splits option.splits prod.splits if_splits)

lemma wf_matrix_iff: "wf_matrix M \<longleftrightarrow> (\<forall>r\<in>set (rws M). length r = ncols M)"
  by (simp add: wf_matrix_def list_all_iff)

lemma wf_matrix_nth: "wf_matrix M \<Longrightarrow> k < nrows M \<Longrightarrow> length (rws M ! k) = ncols M"
  by (simp add: wf_matrix_iff nrows_def)

lemma map2_map_right: "map2 f xs (map h ys) = map2 (\<lambda>x y. f x (h y)) xs ys"
  by (simp add: zip_map2 case_prod_unfold comp_def)

lemma eliminate_row_selected:
  assumes wf: "wf_problem (w_A w) (w_b w) (w_c w)" and k: "k < length (w_b w)"
    and sel: "check_eliminatibility (rws (w_A w) ! k) (w_b w ! k) (Some n_free) a
                = Inr (Some i, jo)"
  shows "eliminate_row n_free a k w =
           Inr (elim_result w k i jo
                  (map2 (\<lambda>bv r. bv + - (w_b w ! k / rws (w_A w) ! k ! i) * r ! i)
                     (w_b w) (rws (w_A w))))"
proof -
  from wf k have kA: "k < nrows (w_A w)" and len: "length (rws (w_A w) ! k) = ncols (w_A w)"
    and nc: "ncols (w_A w) = length (w_c w)" and nr: "length (rws (w_A w)) = length (w_b w)"
    by (auto simp: wf_problem_def wf_matrix_nth nrows_def)
  from check_eliminatibility_SomeD[OF sel] len nc
  have i: "i < ncols (w_A w)" "i < length (w_c w)"
    and j: "\<And>j. jo = Some j \<Longrightarrow> j < length (w_c w)"
    by auto
  show ?thesis
    using kA k sel i j nr
    unfolding eliminate_row_def row_at_def vec_at_def col_at_def elim_result_def
      add_scaled_vector_def
    by (cases jo) (simp_all add: Let_def map2_map_right)
qed






section \<open>The pruning pass in closed form\<close>

lemma col_is_zero_eq:
  "col < ncols A \<Longrightarrow> col_is_zero A col = Inr (column_zero A col)"
  by (auto simp: col_is_zero_def col_at_def column_zero_def any_nonzero_iff list_all_iff)

lemma row_is_zero_eq:
  "row < nrows A \<Longrightarrow> row_is_zero A row = Inr (list_all (\<lambda>x. x = 0) (rws A ! row))"
  by (auto simp: row_is_zero_def row_at_def any_nonzero_iff list_all_iff)

lemma free_test_eq:
  "col < ncols A \<Longrightarrow>
   and_then (int col < K_f K \<and> c ! col = 0) (col_is_zero A col) = Inr (dropped_free A c K col)"
  by (auto simp: and_then_def col_is_zero_eq dropped_free_def)

lemma nneg_test_eq:
  "col < ncols A \<Longrightarrow>
   and_then (int col \<ge> K_f K \<and> int col < K_f K + K_l K \<and> c ! col \<ge> 0) (col_is_zero A col)
     = Inr (dropped_nneg A c K col)"
  by (auto simp: and_then_def col_is_zero_eq dropped_nneg_def)

lemma dropped_free_not_nneg: "dropped_free A c K col \<Longrightarrow> \<not> dropped_nneg A c K col"
  by (simp add: dropped_free_def dropped_nneg_def)

lemma column_pass_eq:
  "\<forall>col\<in>set cols. col < length c \<and> col < ncols A \<Longrightarrow>
   column_pass A c (K_f K) (K_f K + K_l K) cols (df, dl, keep) =
     Inr (df + length (filter (dropped_free A c K) cols),
          dl + length (filter (dropped_nneg A c K) cols),
          keep @ filter (\<lambda>col. \<not> dropped_free A c K col \<and> \<not> dropped_nneg A c K col) cols)"
proof (induction cols arbitrary: df dl keep)
  case Nil
  then show ?case by simp
next
  case (Cons col cols)
  then have col: "col < length c" "col < ncols A" by auto
  have IH: "\<And>df dl keep. column_pass A c (K_f K) (K_f K + K_l K) cols (df, dl, keep) =
     Inr (df + length (filter (dropped_free A c K) cols),
          dl + length (filter (dropped_nneg A c K) cols),
          keep @ filter (\<lambda>col. \<not> dropped_free A c K col \<and> \<not> dropped_nneg A c K col) cols)"
    using Cons by auto
  show ?case
  proof (cases "dropped_free A c K col")
    case True
    with dropped_free_not_nneg[OF True] col show ?thesis
      by (simp add: IH vec_at_def free_test_eq nneg_test_eq Let_def)
  next
    case False
    with col show ?thesis
      by (cases "dropped_nneg A c K col")
        (simp_all add: IH vec_at_def free_test_eq nneg_test_eq Let_def)
  qed
qed

lemma row_pass_eq:
  "\<forall>row\<in>set rows. row < length b \<and> row < nrows A \<Longrightarrow>
   row_pass A b rows keep = Inr (keep @ filter (\<lambda>row. \<not> dropped_row A b row) rows)"
proof (induction rows arbitrary: keep)
  case Nil
  then show ?case by simp
next
  case (Cons row rows)
  then have row: "row < length b" "row < nrows A" by auto
  have IH: "\<And>keep. row_pass A b rows keep
              = Inr (keep @ filter (\<lambda>row. \<not> dropped_row A b row) rows)"
    using Cons by auto
  have test: "and_then (b ! row = 0) (row_is_zero A row) = Inr (dropped_row A b row)"
    using row by (auto simp: and_then_def row_is_zero_eq dropped_row_def)
  show ?case
    using row by (cases "dropped_row A b row") (simp_all add: IH vec_at_def test)
qed

lemma prune_eq:
  assumes wf: "wf_problem (w_A w) (w_b w) (w_c w)"
  shows "prune w K =
    (if w_c w = [] then Inl AssertionError
     else Inr (\<lparr>ncols = length (kept_cols (w_A w) (w_c w) K),
                rws = map (\<lambda>r. map (\<lambda>j. rws (w_A w) ! r ! j) (kept_cols (w_A w) (w_c w) K))
                        (kept_rows (w_A w) (w_b w))\<rparr>,
               map (\<lambda>r. w_b w ! r) (kept_rows (w_A w) (w_b w)),
               map (\<lambda>j. w_c w ! j) (kept_cols (w_A w) (w_c w) K),
               \<lparr>K_f = K_f K - int (length (filter (dropped_free (w_A w) (w_c w) K) [0..<length (w_c w)])),
                K_l = K_l K - int (length (filter (dropped_nneg (w_A w) (w_c w) K) [0..<length (w_c w)])),
                K_s = K_s K\<rparr>,
               w_offset w))"
proof -
  from wf have nr: "nrows (w_A w) = length (w_b w)" and nc: "ncols (w_A w) = length (w_c w)"
    by (auto simp: wf_problem_def)
  have cp: "column_pass (w_A w) (w_c w) (K_f K) (K_f K + K_l K) [0..<length (w_c w)] (0, 0, [])
     = Inr (length (filter (dropped_free (w_A w) (w_c w) K) [0..<length (w_c w)]),
            length (filter (dropped_nneg (w_A w) (w_c w) K) [0..<length (w_c w)]),
            kept_cols (w_A w) (w_c w) K)"
    using column_pass_eq[of "[0..<length (w_c w)]" "w_c w" "w_A w" K 0 0 "[]"] nc
    by (simp add: kept_cols_def)
  have rp: "row_pass (w_A w) (w_b w) [0..<length (w_b w)] [] = Inr (kept_rows (w_A w) (w_b w))"
    using row_pass_eq[of "[0..<length (w_b w)]" "w_b w" "w_A w" "[]"] nr
    by (simp add: kept_rows_def)
  have sel: "ix_select (w_A w) (kept_rows (w_A w) (w_b w)) (kept_cols (w_A w) (w_c w) K)
     = Inr \<lparr>ncols = length (kept_cols (w_A w) (w_c w) K),
                rws = map (\<lambda>r. map (\<lambda>j. rws (w_A w) ! r ! j) (kept_cols (w_A w) (w_c w) K))
                        (kept_rows (w_A w) (w_b w))\<rparr>"
    using nr nc by (auto simp: ix_select_def kept_rows_def kept_cols_def list_all_iff)
  have vb: "vec_select (w_b w) (kept_rows (w_A w) (w_b w))
              = Inr (map (\<lambda>r. w_b w ! r) (kept_rows (w_A w) (w_b w)))"
    by (auto simp: vec_select_def kept_rows_def list_all_iff)
  have vc: "vec_select (w_c w) (kept_cols (w_A w) (w_c w) K)
              = Inr (map (\<lambda>j. w_c w ! j) (kept_cols (w_A w) (w_c w) K))"
    by (auto simp: vec_select_def kept_cols_def list_all_iff)
  have total: "length (kept_cols (w_A w) (w_c w) K)
      + length (filter (dropped_free (w_A w) (w_c w) K) [0..<length (w_c w)])
      + length (filter (dropped_nneg (w_A w) (w_c w) K) [0..<length (w_c w)])
      = length (w_c w)"
  proof -
    have "length (filter P xs) + length (filter Q xs)
            + length (filter (\<lambda>x. \<not> P x \<and> \<not> Q x) xs) = length xs"
      if "\<forall>x. \<not> (P x \<and> Q x)" for P Q :: "nat \<Rightarrow> bool" and xs
      using that by (induction xs) auto
    from this[of "dropped_free (w_A w) (w_c w) K" "dropped_nneg (w_A w) (w_c w) K"
        "[0..<length (w_c w)]"]
    show ?thesis using dropped_free_not_nneg by (auto simp: kept_cols_def)
  qed
  show ?thesis
    unfolding prune_def using total by (simp add: cp rp sel vb vc Let_def)
qed

section \<open>Shapes, totality and the offset\<close>

lemma add_scaled_vector_length:
  "add_scaled_vector b x v = Inr b' \<Longrightarrow> length b' = length b"
  by (auto simp: add_scaled_vector_def split: if_splits)

lemma elim_result_shape:
  "wf_problem (w_A w) (w_b w) (w_c w) \<Longrightarrow> length b' = length (w_b w) \<Longrightarrow>
   wf_problem (w_A (elim_result w k i jo b')) (w_b (elim_result w k i jo b'))
     (w_c (elim_result w k i jo b'))
   \<and> length (w_c (elim_result w k i jo b')) = length (w_c w)"
  unfolding elim_result_def wf_problem_def wf_matrix_iff nrows_def scale_column_def
    add_scaled_column_def
  by (cases jo) (auto simp: Let_def)

lemma elim_result_b: "w_b (elim_result w k i jo b') = b'"
  by (simp add: elim_result_def Let_def)

lemma eliminate_row_shape:
  assumes "eliminate_row n_free a k w = Inr w'" "wf_problem (w_A w) (w_b w) (w_c w)"
  shows "wf_problem (w_A w') (w_b w') (w_c w') \<and> length (w_b w') = length (w_b w)
         \<and> length (w_c w') = length (w_c w)"
proof -
  from eliminate_row_cases[OF assms(1)]
  consider "w' = w"
    | i jo b' where "add_scaled_vector (w_b w) (- (w_b w ! k / rws (w_A w) ! k ! i))
                (map (\<lambda>r. r ! i) (rws (w_A w))) = Inr b'" "w' = elim_result w k i jo b'"
    by blast
  then show ?thesis
  proof cases
    case 1
    with assms(2) show ?thesis by simp
  next
    case 2
    from add_scaled_vector_length[OF 2(1)] have len: "length b' = length (w_b w)" .
    from elim_result_shape[OF assms(2) len, of k i jo] len show ?thesis
      unfolding 2(2) by (simp add: elim_result_b)
  qed
qed

lemma elimination_pass_shape:
  "elimination_pass n_free a ks w = Inr w' \<Longrightarrow> wf_problem (w_A w) (w_b w) (w_c w) \<Longrightarrow>
   wf_problem (w_A w') (w_b w') (w_c w') \<and> length (w_b w') = length (w_b w)
     \<and> length (w_c w') = length (w_c w)"
proof (induction ks arbitrary: w)
  case Nil
  then show ?case by simp
next
  case (Cons k ks)
  from Cons.prems(1) obtain w1 where s: "eliminate_row n_free a k w = Inr w1"
    and r: "elimination_pass n_free a ks w1 = Inr w'"
    by (auto split: sum.splits)
  from eliminate_row_shape[OF s Cons.prems(2)] Cons.IH[OF r] show ?case by simp
qed

lemma check_eliminatibility_total:
  assumes "n_elig \<le> int (length g)"
  shows "\<exists>r. check_eliminatibility g h (Some n_elig) a = Inr r"
proof -
  from assms have "nat n_elig \<le> length g" by simp
  from check_eliminatibility_loop_spec[OF _ this, of 0]
  have "\<exists>r. check_eliminatibility_loop g [0..<nat n_elig] = Inr r" by simp
  then show ?thesis by (simp add: check_eliminatibility_def)
qed

lemma eliminate_row_total:
  assumes wf: "wf_problem (w_A w) (w_b w) (w_c w)" and k: "k < length (w_b w)"
    and nf: "n_free \<le> int (length (w_c w))"
  shows "\<exists>w'. eliminate_row n_free a k w = Inr w'"
proof -
  from wf k have kA: "k < nrows (w_A w)" and len: "length (rws (w_A w) ! k) = length (w_c w)"
    by (auto simp: wf_problem_def wf_matrix_nth)
  from nf len have "n_free \<le> int (length (rws (w_A w) ! k))" by simp
  from check_eliminatibility_total[OF this]
  obtain r where r: "check_eliminatibility (rws (w_A w) ! k) (w_b w ! k) (Some n_free) a = Inr r"
    by blast
  obtain io jo where rr: "r = (io, jo)" by (cases r)
  show ?thesis
  proof (cases io)
    case None
    with r rr kA k show ?thesis
      by (simp add: eliminate_row_def row_at_def vec_at_def)
  next
    case (Some i)
    with r rr eliminate_row_selected[OF wf k, of n_free a i jo] show ?thesis by simp
  qed
qed

lemma elimination_pass_total:
  "wf_problem (w_A w) (w_b w) (w_c w) \<Longrightarrow> \<forall>k\<in>set ks. k < length (w_b w) \<Longrightarrow>
   n_free \<le> int (length (w_c w)) \<Longrightarrow> \<exists>w'. elimination_pass n_free a ks w = Inr w'"
proof (induction ks arbitrary: w)
  case Nil
  then show ?case by simp
next
  case (Cons k ks)
  from eliminate_row_total[OF Cons.prems(1) _ Cons.prems(3), of k a] Cons.prems(2)
  obtain w1 where s: "eliminate_row n_free a k w = Inr w1" by auto
  from eliminate_row_shape[OF s Cons.prems(1)] Cons.prems
  have "\<exists>w'. elimination_pass n_free a ks w1 = Inr w'"
    by (intro Cons.IH) auto
  with s show ?case by simp
qed

lemma eliminate_row_offset:
  assumes "eliminate_row n_free False k w = Inr w'"
  shows "w_offset w' = w_offset w"
proof -
  from eliminate_row_cases[OF assms]
  consider "w' = w"
    | i jo b' where "check_eliminatibility (rws (w_A w) ! k) (w_b w ! k) (Some n_free) False
                     = Inr (Some i, jo)" "w' = elim_result w k i jo b'"
    by blast
  then show ?thesis
  proof cases
    case 1
    then show ?thesis by simp
  next
    case 2
    from check_eliminatibility_SomeD(5)[OF 2(1)] have "w_b w ! k = 0" by simp
    then show ?thesis unfolding 2(2) by (simp add: elim_result_def Let_def)
  qed
qed

lemma elimination_pass_offset:
  "elimination_pass n_free False ks w = Inr w' \<Longrightarrow> w_offset w' = w_offset w"
proof (induction ks arbitrary: w)
  case Nil
  then show ?case by simp
next
  case (Cons k ks)
  from Cons.prems obtain w1 where s: "eliminate_row n_free False k w = Inr w1"
    and r: "elimination_pass n_free False ks w1 = Inr w'"
    by (auto split: sum.splits)
  from eliminate_row_offset[OF s] Cons.IH[OF r] show ?case by simp
qed

lemma prune_offset: "prune w K = Inr (A', b', c', K', off) \<Longrightarrow> off = w_offset w"
  by (auto simp: prune_def Let_def split: sum.splits prod.splits if_splits)

lemma simplify_sedumi_model_InrD:
  assumes "simplify_sedumi_model A b c K a = Inr (args, res)"
  shows "\<exists>w. elimination_pass (K_f K) a [0..<length b] \<lparr>w_A = A, w_b = b, w_c = c, w_offset = 0\<rparr>
               = Inr w \<and> prune w K = Inr res \<and> args = (w_A w, w_b w, w_c w)"
  using assms by (auto simp: simplify_sedumi_model_def Let_def split: sum.splits)



lemma simplify_sedumi_model_offset:
  assumes "simplify_sedumi_model A b c K False = Inr (args, A', b', c', K', offset)"
  shows "offset = 0"
proof -
  from simplify_sedumi_model_InrD[OF assms] obtain w where
    p: "elimination_pass (K_f K) False [0..<length b] \<lparr>w_A = A, w_b = b, w_c = c, w_offset = 0\<rparr>
          = Inr w" and q: "prune w K = Inr (A', b', c', K', offset)"
    by blast
  from elimination_pass_offset[OF p] prune_offset[OF q] show "offset = 0" by simp
qed




lemma dropped_column_iff:
  "dropped_column A c K col \<longleftrightarrow> dropped_free A c K col \<or> dropped_nneg A c K col"
  "int col < K_f K \<and> dropped_column A c K col \<longleftrightarrow> dropped_free A c K col"
  "K_f K \<le> int col \<and> dropped_column A c K col \<longleftrightarrow> dropped_nneg A c K col"
  by (auto simp: dropped_column_def dropped_free_def dropped_nneg_def)

lemma column_partition:
  "length (kept_cols A c K) + length (filter (dropped_free A c K) [0..<length c])
     + length (filter (dropped_nneg A c K) [0..<length c]) = length c"
proof -
  have "length (filter P xs) + length (filter Q xs)
          + length (filter (\<lambda>x. \<not> P x \<and> \<not> Q x) xs) = length xs"
    if "\<forall>x. \<not> (P x \<and> Q x)" for P Q :: "nat \<Rightarrow> bool" and xs
    using that by (induction xs) auto
  from this[of "dropped_free A c K" "dropped_nneg A c K" "[0..<length c]"]
  show ?thesis using dropped_free_not_nneg by (auto simp: kept_cols_def)
qed


text \<open>
  C8. On well-shaped working arrays with at least one column the pruning pass returns, and
  its result is the selection of the surviving rows and columns in increasing order: a
  column is dropped exactly when all its entries are zero and it is free with objective
  coefficient 0 or nonnegative with objective coefficient at least 0; a row is dropped
  exactly when its coefficients and its right-hand side are all zero, so a row
  \<open>0 = nonzero\<close> stays; \<open>K.f\<close> and \<open>K.l\<close> lose the number of dropped free and
  nonnegative columns and \<open>K.s\<close> is unchanged; with \<open>K.l\<close> not negative, no column
  from index \<open>K.f + K.l\<close> on is dropped.
\<close>

theorem pruning_pass_keeps_and_drops:
  assumes wf: "wf_problem (w_A w) (w_b w) (w_c w)" and ne: "w_c w \<noteq> []"
  shows "\<exists>A' b' c' K'. prune w K = Inr (A', b', c', K', w_offset w) \<and>
    (let A = w_A w; b = w_b w; c = w_c w;
         cols = filter (\<lambda>col. \<not> dropped_column A c K col) [0..<length c];
         rows = filter (\<lambda>row. \<not> dropped_row A b row) [0..<length b]
     in A' = \<lparr>ncols = length cols, rws = map (\<lambda>r. map (\<lambda>j. rws A ! r ! j) cols) rows\<rparr>
      \<and> b' = map (\<lambda>r. b ! r) rows
      \<and> c' = map (\<lambda>j. c ! j) cols
      \<and> K_f K' = K_f K - int (length (filter (\<lambda>col. int col < K_f K \<and> dropped_column A c K col)
                                          [0..<length c]))
      \<and> K_l K' = K_l K - int (length (filter (\<lambda>col. K_f K \<le> int col \<and> dropped_column A c K col)
                                          [0..<length c]))
      \<and> K_s K' = K_s K
      \<and> (0 \<le> K_l K \<longrightarrow> (\<forall>col<length c. K_f K + K_l K \<le> int col \<longrightarrow> col \<in> set cols)))"
proof -
  have cols: "filter (\<lambda>col. \<not> dropped_column (w_A w) (w_c w) K col) [0..<length (w_c w)]
                = kept_cols (w_A w) (w_c w) K"
    by (simp add: kept_cols_def dropped_column_iff(1))
  have psd: "0 \<le> K_l K \<longrightarrow> (\<forall>col<length (w_c w). K_f K + K_l K \<le> int col
               \<longrightarrow> col \<in> set (kept_cols (w_A w) (w_c w) K))"
    by (auto simp: kept_cols_def dropped_free_def dropped_nneg_def)
  show ?thesis
    unfolding prune_eq[OF wf] Let_def cols dropped_column_iff(2,3)
    using ne psd by (simp add: kept_rows_def)
qed

theorem pruning_pass_keeps_and_drops_witness:
  "wf_problem \<lparr>ncols = 3, rws = [[0, 0, 0], [0, - 1, 1]]\<rparr> [0, 2] [0, 0, 3]
   \<and> [0, 0, 3 :: real] \<noteq> [] \<and> 0 \<le> K_l \<lparr>K_f = 1, K_l = 1, K_s = [1]\<rparr>
   \<and> prune \<lparr>w_A = \<lparr>ncols = 3, rws = [[0, 0, 0], [0, - 1, 1]]\<rparr>, w_b = [0, 2], w_c = [0, 0, 3],
             w_offset = - 3\<rparr> \<lparr>K_f = 1, K_l = 1, K_s = [1]\<rparr>
       = Inr (\<lparr>ncols = 2, rws = [[- 1, 1]]\<rparr>, [2], [0, 3], \<lparr>K_f = 0, K_l = 1, K_s = [1]\<rparr>, - 3)"
proof -
  let ?w = "\<lparr>w_A = \<lparr>ncols = 3, rws = [[0, 0, 0], [0, - 1, 1]]\<rparr>, w_b = [0, 2], w_c = [0, 0, 3],
             w_offset = - 3\<rparr>"
  let ?K = "\<lparr>K_f = 1, K_l = 1, K_s = [1]\<rparr>"
  have h1: "wf_problem (w_A ?w) (w_b ?w) (w_c ?w)"
    by (simp add: wf_problem_def wf_matrix_def nrows_def)
  have h2: "w_c ?w \<noteq> []" by simp
  have cols: "filter (\<lambda>col. \<not> dropped_column (w_A ?w) (w_c ?w) ?K col) [0..<length (w_c ?w)]
                = [1, 2]"
    by code_simp
  have rows: "filter (\<lambda>row. \<not> dropped_row (w_A ?w) (w_b ?w) row) [0..<length (w_b ?w)] = [1]"
    by code_simp
  have nf: "filter (\<lambda>col. int col < K_f ?K \<and> dropped_column (w_A ?w) (w_c ?w) ?K col)
               [0..<length (w_c ?w)] = [0]"
    by code_simp
  have nl: "filter (\<lambda>col. K_f ?K \<le> int col \<and> dropped_column (w_A ?w) (w_c ?w) ?K col)
               [0..<length (w_c ?w)] = []"
    by code_simp
  from pruning_pass_keeps_and_drops[OF h1 h2, of ?K]
  obtain A' b' c' K' where p: "prune ?w ?K = Inr (A', b', c', K', w_offset ?w)"
    and A': "A' = \<lparr>ncols = 2, rws = [[- 1, 1]]\<rparr>" and b': "b' = [2]" and c': "c' = [0, 3]"
    and K': "K_f K' = 0" "K_l K' = 1" "K_s K' = [1]"
    unfolding Let_def cols rows nf nl by auto
  from K' have "K' = \<lparr>K_f = 0, K_l = 1, K_s = [1]\<rparr>" by (cases K') simp
  with p A' b' c' h1 show ?thesis by simp
qed


text \<open>
  C5, as stated, fails: the problem with the single free variable of zero cost and the
  single constraint \<open>0 x = 0\<close> is reduced to a problem with no row and no column, and
  that empty problem is returned.
\<close>

theorem simplify_returns_empty_problem_counterexample:
  "simplify_sedumi_model \<lparr>ncols = 1, rws = [[0]]\<rparr> [0] [0] \<lparr>K_f = 1, K_l = 0, K_s = []\<rparr> False
     = Inr ((\<lparr>ncols = 1, rws = [[0]]\<rparr>, [0], [0]),
            (\<lparr>ncols = 0, rws = []\<rparr>, [], [], \<lparr>K_f = 0, K_l = 0, K_s = []\<rparr>, 0))"
  by code_simp


text \<open>
  C5, amended. The assertion adds the dropped columns to the surviving ones, so on a
  well-shaped problem whose free count is at most the number of columns it fails exactly
  when the input has no variable at all; every other such input is returned, and
  the surviving columns together with the dropped free and nonnegative ones are the
  columns of the input, of which there is at least one.
\<close>

theorem assertion_fails_iff_no_input_variable:
  assumes wf: "wf_problem A b c" and nf: "K_f K \<le> int (length c)"
  shows "(simplify_sedumi_model A b c K a = Inl AssertionError \<longleftrightarrow> c = [])
    \<and> (c \<noteq> [] \<longrightarrow> (\<exists>r. simplify_sedumi_model A b c K a = Inr r))
    \<and> (\<forall>args A' b' c' K' off.
         simplify_sedumi_model A b c K a = Inr (args, A', b', c', K', off) \<longrightarrow>
           int (ncols A') + (K_f K - K_f K') + (K_l K - K_l K') = int (length c)
           \<and> 0 < length c)"
proof -
  let ?w0 = "\<lparr>w_A = A, w_b = b, w_c = c, w_offset = 0\<rparr>"
  from wf have wf0: "wf_problem (w_A ?w0) (w_b ?w0) (w_c ?w0)" by simp
  from elimination_pass_total[OF wf0, of "[0..<length b]" "K_f K" a] nf
  obtain w where p: "elimination_pass (K_f K) a [0..<length b] ?w0 = Inr w" by auto
  from elimination_pass_shape[OF p wf0]
  have wfw: "wf_problem (w_A w) (w_b w) (w_c w)" and len: "length (w_c w) = length c" by auto
  have s: "simplify_sedumi_model A b c K a =
             (case prune w K of Inl e \<Rightarrow> Inl e | Inr res \<Rightarrow> Inr ((w_A w, w_b w, w_c w), res))"
    using p by (simp add: simplify_sedumi_model_def)
  from len have e: "w_c w = [] \<longleftrightarrow> c = []" by auto
  show ?thesis
    unfolding s prune_eq[OF wfw] e
    using column_partition[of "w_A w" "w_c w" K] len by auto
qed

theorem assertion_fails_iff_no_input_variable_witness:
  "wf_problem \<lparr>ncols = 0, rws = [[]]\<rparr> [0] [] \<and> K_f \<lparr>K_f = 0, K_l = 0, K_s = []\<rparr> \<le> int (length ([] :: real list))
   \<and> simplify_sedumi_model \<lparr>ncols = 0, rws = [[]]\<rparr> [0] [] \<lparr>K_f = 0, K_l = 0, K_s = []\<rparr> False
       = Inl AssertionError"
proof -
  have h1: "wf_problem \<lparr>ncols = 0, rws = [[]]\<rparr> [0] []"
    by (simp add: wf_problem_def wf_matrix_def nrows_def)
  have h2: "K_f \<lparr>K_f = 0, K_l = 0, K_s = []\<rparr> \<le> int (length ([] :: real list))" by simp
  from assertion_fails_iff_no_input_variable[OF h1 h2, of False] h1 h2 show ?thesis by simp
qed

section \<open>Running the simplifier on its own output\<close>

lemma kept_plus_hidden_le:
  "length (filter P [0..<n]) + length (filter (\<lambda>i. \<not> P i \<and> int i < t) [0..<n]) \<le> n"
  by (induction n) auto

lemma kept_plus_hidden_below:
  "int n \<le> t \<Longrightarrow>
   length (filter P [0..<n]) + length (filter (\<lambda>i. \<not> P i \<and> int i < t) [0..<n]) = n"
  by (induction n) auto

lemma kept_plus_hidden_above:
  "t \<le> int n \<Longrightarrow>
   t \<le> int (length (filter P [0..<n]) + length (filter (\<lambda>i. \<not> P i \<and> int i < t) [0..<n]))"
proof (induction n)
  case 0
  then show ?case by simp
next
  case (Suc n)
  show ?case
  proof (cases "t \<le> int n")
    case True
    from Suc.IH[OF True] show ?thesis by auto
  next
    case False
    with Suc.prems have "int (Suc n) \<le> t" by simp
    from kept_plus_hidden_below[OF this, of P] Suc.prems show ?thesis by simp
  qed
qed

lemma filter_threshold:
  "j' < length (filter P [0..<n]) \<Longrightarrow>
   (int (filter P [0..<n] ! j') < t) =
   (int j' < t - int (length (filter (\<lambda>i. \<not> P i \<and> int i < t) [0..<n])))"
proof (induction n)
  case 0
  then show ?case by simp
next
  case (Suc n)
  let ?K = "length (filter P [0..<n])"
  let ?D = "length (filter (\<lambda>i. \<not> P i \<and> int i < t) [0..<n])"
  show ?case
  proof (cases "j' < ?K")
    case True
    have nth: "filter P [0..<Suc n] ! j' = filter P [0..<n] ! j'"
      using True by (simp add: nth_append)
    have bound: "int (filter P [0..<n] ! j') < int n"
    proof -
      from True have "filter P [0..<n] ! j' \<in> set (filter P [0..<n])" by (rule nth_mem)
      then show ?thesis by simp
    qed
    show ?thesis
    proof (cases "\<not> P n \<and> int n < t")
      case hid: True
      from kept_plus_hidden_le[of P n t] True have "int j' + int ?D + 1 \<le> int n" by linarith
      with hid bound show ?thesis unfolding nth by auto
    next
      case False
      then have "length (filter (\<lambda>i. \<not> P i \<and> int i < t) [0..<Suc n]) = ?D" by auto
      with Suc.IH[OF True] show ?thesis unfolding nth by simp
    qed
  next
    case False
    with Suc.prems have Pn: "P n" and j': "j' = ?K" by (auto split: if_splits)
    have nth: "filter P [0..<Suc n] ! j' = n" using Pn j' by (simp add: nth_append)
    have D: "length (filter (\<lambda>i. \<not> P i \<and> int i < t) [0..<Suc n]) = ?D" using Pn by simp
    show ?thesis
    proof (cases "int n < t")
      case True
      then have "int n \<le> t" by simp
      from kept_plus_hidden_below[OF this, of P] True j' show ?thesis unfolding nth D by linarith
    next
      case False
      then have "t \<le> int n" by simp
      from kept_plus_hidden_above[OF this, of P] False j' show ?thesis unfolding nth D by linarith
    qed
  qed
qed

lemma column_zero_iff:
  "column_zero A j \<longleftrightarrow> (\<forall>r<nrows A. rws A ! r ! j = 0)"
  by (simp add: column_zero_def list_all_iff all_set_conv_all_nth nrows_def)

lemma kept_cols_nth:
  assumes "j' < length (kept_cols A c K)"
  shows "kept_cols A c K ! j' < length c"
    "\<not> dropped_free A c K (kept_cols A c K ! j')"
    "\<not> dropped_nneg A c K (kept_cols A c K ! j')"
proof -
  from assms have "kept_cols A c K ! j' \<in> set (kept_cols A c K)" by (rule nth_mem)
  then show "kept_cols A c K ! j' < length c"
    "\<not> dropped_free A c K (kept_cols A c K ! j')"
    "\<not> dropped_nneg A c K (kept_cols A c K ! j')"
    by (auto simp: kept_cols_def)
qed

lemma kept_rows_nth:
  assumes "r' < length (kept_rows A b)"
  shows "kept_rows A b ! r' < length b" "\<not> dropped_row A b (kept_rows A b ! r')"
proof -
  from assms have "kept_rows A b ! r' \<in> set (kept_rows A b)" by (rule nth_mem)
  then show "kept_rows A b ! r' < length b" "\<not> dropped_row A b (kept_rows A b ! r')"
    by (auto simp: kept_rows_def)
qed

lemma pruned_column_zero:
  assumes wf: "wf_problem A b c" and j': "j' < length (kept_cols A c K)"
  shows "column_zero (pruned_A A b c K) j' \<longleftrightarrow> column_zero A (kept_cols A c K ! j')"
proof -
  let ?j = "kept_cols A c K ! j'"
  from wf have nr: "nrows A = length b" and nc: "ncols A = length c" and wfA: "wf_matrix A"
    by (auto simp: wf_problem_def)
  have jn: "?j < length c" using kept_cols_nth(1)[OF j'] .
  have "column_zero (pruned_A A b c K) j' \<longleftrightarrow> (\<forall>r\<in>set (kept_rows A b). rws A ! r ! ?j = 0)"
    using j' by (simp add: column_zero_def pruned_A_def list_all_iff)
  also have "\<dots> \<longleftrightarrow> (\<forall>r<length b. rws A ! r ! ?j = 0)"
  proof
    assume kept: "\<forall>r\<in>set (kept_rows A b). rws A ! r ! ?j = 0"
    show "\<forall>r<length b. rws A ! r ! ?j = 0"
    proof (intro allI impI)
      fix r assume r: "r < length b"
      show "rws A ! r ! ?j = 0"
      proof (cases "dropped_row A b r")
        case True
        then have z: "\<forall>x\<in>set (rws A ! r). x = 0" by (simp add: dropped_row_def list_all_iff)
        from wf_matrix_nth[OF wfA] r nr nc jn have "?j < length (rws A ! r)" by simp
        then have "rws A ! r ! ?j \<in> set (rws A ! r)" by (rule nth_mem)
        with z show ?thesis by blast
      next
        case False
        with r have "r \<in> set (kept_rows A b)" by (simp add: kept_rows_def)
        with kept show ?thesis by blast
      qed
    qed
  next
    assume "\<forall>r<length b. rws A ! r ! ?j = 0"
    then show "\<forall>r\<in>set (kept_rows A b). rws A ! r ! ?j = 0" by (auto simp: kept_rows_def)
  qed
  also have "\<dots> \<longleftrightarrow> column_zero A ?j" by (simp add: column_zero_iff nr)
  finally show ?thesis .
qed

lemma hidden_free_count:
  "length (filter (\<lambda>i. (dropped_free A c K i \<or> dropped_nneg A c K i) \<and> int i < K_f K) xs)
     = length (filter (dropped_free A c K) xs)"
proof -
  have "((dropped_free A c K i \<or> dropped_nneg A c K i) \<and> int i < K_f K)
          = dropped_free A c K i" for i
    by (auto simp: dropped_free_def dropped_nneg_def)
  then show ?thesis by simp
qed

lemma hidden_count_le:
  "length (filter (\<lambda>i. (dropped_free A c K i \<or> dropped_nneg A c K i) \<and> int i < t) xs)
     \<le> length (filter (dropped_free A c K) xs) + length (filter (dropped_nneg A c K) xs)"
  by (induction xs) auto

lemma pruned_class:
  assumes j': "j' < length (kept_cols A c K)"
  shows "(int j' < K_f (pruned_K A c K)) = (int (kept_cols A c K ! j') < K_f K)"
    and "K_f K + K_l K \<le> int (kept_cols A c K ! j')
         \<Longrightarrow> K_f (pruned_K A c K) + K_l (pruned_K A c K) \<le> int j'"
proof -
  let ?P = "\<lambda>col. \<not> dropped_free A c K col \<and> \<not> dropped_nneg A c K col"
  from j' have j'': "j' < length (filter ?P [0..<length c])" by (simp add: kept_cols_def)
  from filter_threshold[OF j'', of "K_f K"]
  show "(int j' < K_f (pruned_K A c K)) = (int (kept_cols A c K ! j') < K_f K)"
    by (simp add: kept_cols_def pruned_K_def hidden_free_count)
  assume "K_f K + K_l K \<le> int (kept_cols A c K ! j')"
  with filter_threshold[OF j'', of "K_f K + K_l K"]
  have "K_f K + K_l K - int (length (filter (\<lambda>i. (dropped_free A c K i \<or> dropped_nneg A c K i)
          \<and> int i < K_f K + K_l K) [0..<length c])) \<le> int j'"
    by (simp add: kept_cols_def)
  with hidden_count_le[of A c K "K_f K + K_l K" "[0..<length c]"]
  show "K_f (pruned_K A c K) + K_l (pruned_K A c K) \<le> int j'"
    by (simp add: pruned_K_def)
qed

lemma pruned_column_kept:
  assumes wf: "wf_problem A b c" and j': "j' < length (kept_cols A c K)"
  shows "\<not> dropped_free (pruned_A A b c K) (map (\<lambda>j. c ! j) (kept_cols A c K)) (pruned_K A c K) j'"
    and "\<not> dropped_nneg (pruned_A A b c K) (map (\<lambda>j. c ! j) (kept_cols A c K)) (pruned_K A c K) j'"
proof -
  let ?j = "kept_cols A c K ! j'"
  note z = pruned_column_zero[OF wf j']
  note k = kept_cols_nth(2,3)[OF j']
  note cl = pruned_class[OF j']
  have cj: "map (\<lambda>j. c ! j) (kept_cols A c K) ! j' = c ! ?j" using j' by simp
  show "\<not> dropped_free (pruned_A A b c K) (map (\<lambda>j. c ! j) (kept_cols A c K)) (pruned_K A c K) j'"
  proof
    assume "dropped_free (pruned_A A b c K) (map (\<lambda>j. c ! j) (kept_cols A c K)) (pruned_K A c K) j'"
    then have "int ?j < K_f K" "c ! ?j = 0" "column_zero A ?j"
      using z cl(1) cj by (auto simp: dropped_free_def)
    with k(1) show False by (simp add: dropped_free_def)
  qed
  show "\<not> dropped_nneg (pruned_A A b c K) (map (\<lambda>j. c ! j) (kept_cols A c K)) (pruned_K A c K) j'"
  proof
    assume "dropped_nneg (pruned_A A b c K) (map (\<lambda>j. c ! j) (kept_cols A c K)) (pruned_K A c K) j'"
    then have a: "K_f (pruned_K A c K) \<le> int j'"
        "int j' < K_f (pruned_K A c K) + K_l (pruned_K A c K)" "c ! ?j \<ge> 0" "column_zero A ?j"
      using z cj by (auto simp: dropped_nneg_def)
    from a(1) cl(1) have ge: "K_f K \<le> int ?j" by linarith
    from a(2) cl(2) have lt: "int ?j < K_f K + K_l K" by linarith
    from ge lt a(3,4) k(2) show False by (simp add: dropped_nneg_def)
  qed
qed

lemma pruned_row_kept:
  assumes wf: "wf_problem A b c" and r': "r' < length (kept_rows A b)"
  shows "\<not> dropped_row (pruned_A A b c K) (map (\<lambda>r. b ! r) (kept_rows A b)) r'"
proof
  let ?r = "kept_rows A b ! r'"
  from wf have nr: "nrows A = length b" and nc: "ncols A = length c" and wfA: "wf_matrix A"
    by (auto simp: wf_problem_def)
  assume "dropped_row (pruned_A A b c K) (map (\<lambda>r. b ! r) (kept_rows A b)) r'"
  then have b0: "b ! ?r = 0" and z: "\<forall>j\<in>set (kept_cols A c K). rws A ! ?r ! j = 0"
    using r' by (auto simp: dropped_row_def pruned_A_def list_all_iff)
  from kept_rows_nth[OF r'] have rb: "?r < length b" and nd: "\<not> dropped_row A b ?r" by auto
  from nd b0 obtain x where "x \<in> set (rws A ! ?r)" "x \<noteq> 0"
    by (auto simp: dropped_row_def list_all_iff)
  then obtain j where j: "j < length (rws A ! ?r)" "rws A ! ?r ! j \<noteq> 0"
    by (auto simp: in_set_conv_nth)
  from wf_matrix_nth[OF wfA] rb nr nc j(1) have jn: "j < length c" by simp
  from j(2) rb nr have "\<not> column_zero A j" by (auto simp: column_zero_iff)
  then have "\<not> dropped_free A c K j \<and> \<not> dropped_nneg A c K j"
    by (simp add: dropped_free_def dropped_nneg_def)
  with jn have "j \<in> set (kept_cols A c K)" by (simp add: kept_cols_def)
  with z j(2) show False by blast
qed

lemma prune_pruned:
  assumes wf: "wf_problem (w_A w) (w_b w) (w_c w)"
  shows "prune w K =
    (if w_c w = [] then Inl AssertionError
     else Inr (pruned_A (w_A w) (w_b w) (w_c w) K,
               map (\<lambda>r. w_b w ! r) (kept_rows (w_A w) (w_b w)),
               map (\<lambda>j. w_c w ! j) (kept_cols (w_A w) (w_c w) K),
               pruned_K (w_A w) (w_c w) K, w_offset w))"
  unfolding prune_eq[OF wf] pruned_A_def pruned_K_def by simp

lemma pruned_wf:
  "wf_problem (pruned_A A b c K) (map (\<lambda>r. b ! r) (kept_rows A b))
     (map (\<lambda>j. c ! j) (kept_cols A c K))"
  by (simp add: wf_problem_def wf_matrix_iff pruned_A_def nrows_def)

lemma select_all:
  assumes "wf_matrix M"
  shows "\<lparr>ncols = ncols M,
          rws = map (\<lambda>r. map (\<lambda>j. rws M ! r ! j) [0..<ncols M]) [0..<nrows M]\<rparr> = M"
proof -
  have "map (\<lambda>r. map (\<lambda>j. rws M ! r ! j) [0..<ncols M]) [0..<nrows M]
          = map (\<lambda>r. rws M ! r) [0..<nrows M]"
  proof (rule map_cong[OF refl])
    fix r assume "r \<in> set [0..<nrows M]"
    then have "length (rws M ! r) = ncols M" using wf_matrix_nth[OF assms] by simp
    then show "map (\<lambda>j. rws M ! r ! j) [0..<ncols M] = rws M ! r"
      using map_nth[of "rws M ! r"] by simp
  qed
  also have "\<dots> = rws M" by (simp add: nrows_def map_nth)
  finally show ?thesis by simp
qed

lemma prune_fixpoint:
  assumes wf: "wf_problem (w_A w) (w_b w) (w_c w)" and ne: "w_c w \<noteq> []"
    and cols: "\<forall>j<length (w_c w). \<not> dropped_free (w_A w) (w_c w) K j
                                  \<and> \<not> dropped_nneg (w_A w) (w_c w) K j"
    and rows: "\<forall>r<length (w_b w). \<not> dropped_row (w_A w) (w_b w) r"
  shows "prune w K = Inr (w_A w, w_b w, w_c w, K, w_offset w)"
proof -
  from wf have nr: "nrows (w_A w) = length (w_b w)" and nc: "ncols (w_A w) = length (w_c w)"
    and wfA: "wf_matrix (w_A w)"
    by (auto simp: wf_problem_def)
  have kc: "kept_cols (w_A w) (w_c w) K = [0..<length (w_c w)]"
    using cols by (simp add: kept_cols_def)
  have kr: "kept_rows (w_A w) (w_b w) = [0..<length (w_b w)]"
    using rows by (simp add: kept_rows_def)
  have df: "filter (dropped_free (w_A w) (w_c w) K) [0..<length (w_c w)] = []"
    using cols by (simp add: filter_empty_conv)
  have dl: "filter (dropped_nneg (w_A w) (w_c w) K) [0..<length (w_c w)] = []"
    using cols by (simp add: filter_empty_conv)
  have K: "pruned_K (w_A w) (w_c w) K = K" by (simp add: pruned_K_def df dl)
  have A: "pruned_A (w_A w) (w_b w) (w_c w) K = w_A w"
    using select_all[OF wfA] by (simp add: pruned_A_def kc kr nr nc)
  show ?thesis
    unfolding prune_pruned[OF wf] K A using ne by (simp add: kc kr map_nth)
qed

lemma eliminate_row_noop:
  assumes "k < nrows (w_A w)" "k < length (w_b w)"
    and "check_eliminatibility (rws (w_A w) ! k) (w_b w ! k) (Some n_free) a = Inr (None, jo)"
  shows "eliminate_row n_free a k w = Inr w"
  using assms by (simp add: eliminate_row_def row_at_def vec_at_def)

lemma elimination_pass_noop:
  assumes "\<forall>k\<in>set ks. k < nrows (w_A w) \<and> k < length (w_b w)
            \<and> (\<exists>jo. check_eliminatibility (rws (w_A w) ! k) (w_b w ! k) (Some n_free) a
                      = Inr (None, jo))"
  shows "elimination_pass n_free a ks w = Inr w"
  using assms
proof (induction ks)
  case Nil
  then show ?case by simp
next
  case (Cons k ks)
  then obtain jo where "k < nrows (w_A w)" "k < length (w_b w)"
    "check_eliminatibility (rws (w_A w) ! k) (w_b w ! k) (Some n_free) a = Inr (None, jo)"
    by auto
  from eliminate_row_noop[OF this] Cons show ?case by simp
qed


text \<open>
  C9, as stated, fails: the first call reduces the problem of one free variable of zero
  cost under \<open>0 x = 0\<close> to the empty problem, which has no row left to eliminate, and the
  second call on that output fails its assertion instead of returning it.
\<close>

theorem second_simplify_fails_counterexample:
  "simplify_sedumi_model \<lparr>ncols = 1, rws = [[0]]\<rparr> [0] [0] \<lparr>K_f = 1, K_l = 0, K_s = []\<rparr> False
     = Inr ((\<lparr>ncols = 1, rws = [[0]]\<rparr>, [0], [0]),
            (\<lparr>ncols = 0, rws = []\<rparr>, [], [], \<lparr>K_f = 0, K_l = 0, K_s = []\<rparr>, 0))
   \<and> simplify_sedumi_model \<lparr>ncols = 0, rws = []\<rparr> [] [] \<lparr>K_f = 0, K_l = 0, K_s = []\<rparr> False
     = Inl AssertionError"
  by code_simp

text \<open>
  C9, amended. When the first call returns a problem that keeps at least one column
  and none of whose rows is eliminable, the second call on that output returns the same
  \<open>A\<close>, \<open>b\<close>, \<open>c\<close> and \<open>K\<close> with offset 0, and leaves its arguments as they were.
\<close>

theorem second_simplify_is_identity:
  assumes wf: "wf_problem A b c"
    and first: "simplify_sedumi_model A b c K a1 = Inr (args, A1, b1, c1, K1, off1)"
    and noelim: "\<forall>k<length b1. \<exists>jo.
        check_eliminatibility (rws A1 ! k) (b1 ! k) (Some (K_f K1)) a2 = Inr (None, jo)"
    and nonempty: "c1 \<noteq> []"
  shows "simplify_sedumi_model A1 b1 c1 K1 a2 = Inr ((A1, b1, c1), (A1, b1, c1, K1, 0))"
proof -
  let ?w0 = "\<lparr>w_A = A, w_b = b, w_c = c, w_offset = 0\<rparr>"
  from wf have wf0: "wf_problem (w_A ?w0) (w_b ?w0) (w_c ?w0)" by simp
  from simplify_sedumi_model_InrD[OF first] obtain w where
    p: "elimination_pass (K_f K) a1 [0..<length b] ?w0 = Inr w"
    and q: "prune w K = Inr (A1, b1, c1, K1, off1)"
    by blast
  from elimination_pass_shape[OF p wf0] have wfw: "wf_problem (w_A w) (w_b w) (w_c w)" by simp
  from q have out: "A1 = pruned_A (w_A w) (w_b w) (w_c w) K"
      "b1 = map (\<lambda>r. w_b w ! r) (kept_rows (w_A w) (w_b w))"
      "c1 = map (\<lambda>j. w_c w ! j) (kept_cols (w_A w) (w_c w) K)"
      "K1 = pruned_K (w_A w) (w_c w) K"
    unfolding prune_pruned[OF wfw] by (auto split: if_splits)
  let ?w1 = "\<lparr>w_A = A1, w_b = b1, w_c = c1, w_offset = 0\<rparr>"
  have wf1: "wf_problem (w_A ?w1) (w_b ?w1) (w_c ?w1)"
    unfolding out using pruned_wf by simp
  then have nr1: "nrows A1 = length b1" by (simp add: wf_problem_def)
  have pass: "elimination_pass (K_f K1) a2 [0..<length b1] ?w1 = Inr ?w1"
    by (rule elimination_pass_noop) (use noelim nr1 in auto)
  have cols: "\<forall>j<length (w_c ?w1). \<not> dropped_free (w_A ?w1) (w_c ?w1) K1 j
                                  \<and> \<not> dropped_nneg (w_A ?w1) (w_c ?w1) K1 j"
    unfolding out using pruned_column_kept[OF wfw] by simp
  have rows: "\<forall>r<length (w_b ?w1). \<not> dropped_row (w_A ?w1) (w_b ?w1) r"
    unfolding out using pruned_row_kept[OF wfw] by simp
  have ne: "w_c ?w1 \<noteq> []" using nonempty by simp
  from prune_fixpoint[OF wf1 ne cols rows]
  have "prune ?w1 K1 = Inr (A1, b1, c1, K1, 0)" by simp
  with pass show ?thesis by (simp add: simplify_sedumi_model_def)
qed

theorem second_simplify_is_identity_witness:
  "wf_problem \<lparr>ncols = 3, rws = [[2, 4, 0], [1, 1, 1]]\<rparr> [0, 5] [1, 2, 3]
   \<and> simplify_sedumi_model \<lparr>ncols = 3, rws = [[2, 4, 0], [1, 1, 1]]\<rparr> [0, 5] [1, 2, 3]
        \<lparr>K_f = 1, K_l = 2, K_s = []\<rparr> False
      = Inr ((\<lparr>ncols = 3, rws = [[0, 0, 0], [0, - 1, 1]]\<rparr>, [0, 5], [0, 0, 3]),
             \<lparr>ncols = 2, rws = [[- 1, 1]]\<rparr>, [5], [0, 3], \<lparr>K_f = 0, K_l = 2, K_s = []\<rparr>, 0)
   \<and> check_eliminatibility [- 1, 1] 5 (Some 0) False = Inr (None, None)
   \<and> [0, 3 :: real] \<noteq> []
   \<and> simplify_sedumi_model \<lparr>ncols = 2, rws = [[- 1, 1]]\<rparr> [5] [0, 3]
        \<lparr>K_f = 0, K_l = 2, K_s = []\<rparr> False
      = Inr ((\<lparr>ncols = 2, rws = [[- 1, 1]]\<rparr>, [5], [0, 3]),
             \<lparr>ncols = 2, rws = [[- 1, 1]]\<rparr>, [5], [0, 3], \<lparr>K_f = 0, K_l = 2, K_s = []\<rparr>, 0)"
proof -
  let ?A = "\<lparr>ncols = 3, rws = [[2, 4, 0], [1, 1, 1]]\<rparr>"
  let ?K = "\<lparr>K_f = 1, K_l = 2, K_s = []\<rparr>"
  let ?A1 = "\<lparr>ncols = 2, rws = [[- 1, 1]]\<rparr>"
  let ?K1 = "\<lparr>K_f = 0, K_l = 2, K_s = []\<rparr>"
  have h1: "wf_problem ?A [0, 5] [1, 2, 3]"
    by (simp add: wf_problem_def wf_matrix_def nrows_def)
  have h2: "simplify_sedumi_model ?A [0, 5] [1, 2, 3] ?K False
      = Inr ((\<lparr>ncols = 3, rws = [[0, 0, 0], [0, - 1, 1]]\<rparr>, [0, 5], [0, 0, 3]),
             ?A1, [5], [0, 3], ?K1, 0)"
    by code_simp
  have c: "check_eliminatibility [- 1, 1] 5 (Some 0) False = Inr (None, None)"
    by (simp add: check_eliminatibility_def)
  have h3: "\<forall>k<length [5::real]. \<exists>jo.
        check_eliminatibility (rws ?A1 ! k) ([5] ! k) (Some (K_f ?K1)) False = Inr (None, jo)"
    using c by simp
  have h4: "[0, 3 :: real] \<noteq> []" by simp
  from second_simplify_is_identity[OF h1 h2 h3 h4] h1 h2 c h4 show ?thesis by simp
qed


section \<open>The expansion step\<close>

lemma matrix_eqI:
  assumes "wf_matrix M" "wf_matrix N" "ncols M = ncols N" "nrows M = nrows N"
    and "\<And>i j. i < nrows M \<Longrightarrow> j < ncols M \<Longrightarrow> rws M ! i ! j = rws N ! i ! j"
  shows "M = N"
proof -
  have "rws M = rws N"
  proof (rule nth_equalityI)
    show "length (rws M) = length (rws N)" using assms(4) by (simp add: nrows_def)
    fix i assume i: "i < length (rws M)"
    then have li: "length (rws M ! i) = ncols M" "length (rws N ! i) = ncols N"
      using wf_matrix_nth[OF assms(1), of i] wf_matrix_nth[OF assms(2), of i] assms(4)
      by (simp_all add: nrows_def)
    show "rws M ! i = rws N ! i"
      by (rule nth_equalityI) (use li assms(3,5) i in \<open>auto simp: nrows_def\<close>)
  qed
  with assms(3) show ?thesis by (cases M, cases N) simp
qed

lemma broadcast_exact:
  assumes "wf_matrix V" "nrows V = R" "ncols V = C"
  shows "broadcast_to V R C = Inr (rws V)"
proof -
  have "map (\<lambda>i. map (\<lambda>j. rws V ! (if nrows V = 1 then 0 else i)
                            ! (if ncols V = 1 then 0 else j)) [0..<C]) [0..<R]
        = map (\<lambda>i. rws V ! i) [0..<R]"
  proof (rule map_cong[OF refl])
    fix i assume "i \<in> set [0..<R]"
    then have i: "i < nrows V" using assms(2) by simp
    then have len: "length (rws V ! i) = C" using wf_matrix_nth[OF assms(1)] assms(3) by simp
    have "map (\<lambda>j. rws V ! (if nrows V = 1 then 0 else i) ! (if ncols V = 1 then 0 else j)) [0..<C]
            = map (\<lambda>j. rws V ! i ! j) [0..<C]"
      using i assms(3) by (intro map_cong[OF refl]) auto
    also have "\<dots> = rws V ! i" using map_nth[of "rws V ! i"] len by simp
    finally show "map (\<lambda>j. rws V ! (if nrows V = 1 then 0 else i)
                            ! (if ncols V = 1 then 0 else j)) [0..<C] = rws V ! i" .
  qed
  also have "\<dots> = rws V" using assms(2) map_nth[of "rws V"] by (auto simp: nrows_def)
  finally show ?thesis using assms by (simp add: broadcast_to_def)
qed

lemma set_block_exact:
  assumes "wf_matrix V" "nrows V = R" "ncols V = C"
  shows "set_block M r0 c0 R C V = Inr (put M r0 c0 V)"
  using assms by (simp add: set_block_def broadcast_exact put_def)

lemma put_shape [simp]:
  "ncols (put M r0 c0 V) = ncols M" "nrows (put M r0 c0 V) = nrows M"
  "wf_matrix (put M r0 c0 V)"
  by (simp_all add: put_def nrows_def wf_matrix_iff)

lemma put_entry:
  "i < nrows M \<Longrightarrow> j < ncols M \<Longrightarrow>
   rws (put M r0 c0 V) ! i ! j =
     (if r0 \<le> i \<and> i < r0 + nrows V \<and> c0 \<le> j \<and> j < c0 + ncols V
      then rws V ! (i - r0) ! (j - c0) else rws M ! i ! j)"
  by (simp add: put_def)

lemma zeros_shape [simp]:
  "ncols (zeros r c) = c" "nrows (zeros r c) = r" "wf_matrix (zeros r c)"
  by (simp_all add: zeros_def nrows_def wf_matrix_iff)

lemma zeros_entry: "i < r \<Longrightarrow> j < c \<Longrightarrow> rws (zeros r c) ! i ! j = 0"
  by (simp add: zeros_def)

lemma eye_shape [simp]: "ncols (eye n) = n" "nrows (eye n) = n" "wf_matrix (eye n)"
  by (simp_all add: eye_def nrows_def wf_matrix_iff)

lemma eye_entry: "i < n \<Longrightarrow> j < n \<Longrightarrow> rws (eye n) ! i ! j = (if i = j then 1 else 0)"
  by (simp add: eye_def)

lemma take_rows_shape [simp]:
  "ncols (take_rows k M) = ncols M" "nrows (take_rows k M) = min k (nrows M)"
  "wf_matrix M \<Longrightarrow> wf_matrix (take_rows k M)"
  by (auto simp: take_rows_def nrows_def wf_matrix_iff dest: in_set_takeD)

lemma drop_rows_shape [simp]:
  "ncols (drop_rows k M) = ncols M" "nrows (drop_rows k M) = nrows M - k"
  "wf_matrix M \<Longrightarrow> wf_matrix (drop_rows k M)"
  by (auto simp: drop_rows_def nrows_def wf_matrix_iff dest: in_set_dropD)

lemma transpose_column:
  assumes "wf_matrix M" "ncols M = 1"
  shows "transpose_m M = \<lparr>ncols = nrows M, rws = [column_entries M]\<rparr>"
  using assms by (simp add: transpose_m_def column_entries_def)

lemma wf_sourceD:
  assumes "wf_source pd"
  defines "ni \<equiv> nat (dims_l (pd_dims pd))"
    and "nsdp \<equiv> nat (sum_list (map (\<lambda>s. s * s) (dims_s (pd_dims pd))))"
  shows "wf_matrix (pd_A pd)" "wf_matrix (pd_b pd)" "wf_matrix (pd_G pd)"
    "wf_matrix (pd_h pd)" "wf_matrix (pd_c pd)"
    "ncols (pd_c pd) = 1" "ncols (pd_b pd) = 1" "ncols (pd_h pd) = 1"
    "nrows (pd_A pd) = nrows (pd_b pd)" "ncols (pd_A pd) = nrows (pd_c pd)"
    "ncols (pd_G pd) = nrows (pd_c pd)" "nrows (pd_G pd) = ni + nsdp"
    "nrows (pd_h pd) = ni + nsdp" "0 \<le> dims_l (pd_dims pd)"
proof -
  have "0 \<le> sum_list (map (\<lambda>s. s * s) xs)" for xs :: "int list"
    by (induction xs) auto
  from this[of "dims_s (pd_dims pd)"] show "wf_matrix (pd_A pd)" "wf_matrix (pd_b pd)" "wf_matrix (pd_G pd)"
    "wf_matrix (pd_h pd)" "wf_matrix (pd_c pd)"
    "ncols (pd_c pd) = 1" "ncols (pd_b pd) = 1" "ncols (pd_h pd) = 1"
    "nrows (pd_A pd) = nrows (pd_b pd)" "ncols (pd_A pd) = nrows (pd_c pd)"
    "ncols (pd_G pd) = nrows (pd_c pd)" "nrows (pd_G pd) = ni + nsdp"
    "nrows (pd_h pd) = ni + nsdp" "0 \<le> dims_l (pd_dims pd)"
    using assms(1) unfolding wf_source_def Let_def ni_def nsdp_def
    by (auto simp: nat_add_distrib nat_eq_iff)
qed

lemma expand_prepared:
  assumes wf: "wf_source pd"
  defines "nx \<equiv> nrows (pd_c pd)" and "ne \<equiv> nrows (pd_b pd)"
    and "ni \<equiv> nat (dims_l (pd_dims pd))"
    and "nsdp \<equiv> nat (sum_list (map (\<lambda>s. s * s) (dims_s (pd_dims pd))))"
  shows "expand (problem_data_prep pd) =
     Inr (expanded_A pd nx ne ni nsdp, expanded_b pd ne ni nsdp,
          put (zeros 1 (nx + ni + nsdp)) 0 0 \<lparr>ncols = nx, rws = [column_entries (pd_c pd)]\<rparr>,
          \<lparr>K_f = int nx, K_l = dims_l (pd_dims pd), K_s = dims_s (pd_dims pd)\<rparr>)"
proof -
  note d = wf_sourceD[OF wf, folded ni_def nsdp_def nx_def ne_def]
  let ?c' = "\<lparr>ncols = nx, rws = [column_entries (pd_c pd)]\<rparr>"
  have c': "pd_c (problem_data_prep pd) = ?c'"
    using transpose_column[OF d(5,6)] by (simp add: problem_data_prep_def cvxmat_def nx_def)
  have wfc': "wf_matrix ?c'" "nrows ?c' = 1" "ncols ?c' = nx"
    by (simp_all add: wf_matrix_iff nrows_def column_entries_def nx_def)
  have lens: "len_m ?c' = nx" "len_m (pd_b pd) = ne"
    using d(7) by (simp_all add: len_m_def nrows_def ne_def)
  have rest: "pd_A (problem_data_prep pd) = pd_A pd" "pd_b (problem_data_prep pd) = pd_b pd"
    "pd_G (problem_data_prep pd) = pd_G pd" "pd_h (problem_data_prep pd) = pd_h pd"
    "pd_dims (problem_data_prep pd) = pd_dims pd"
    by (simp_all add: problem_data_prep_def cvxmat_def)
  have s1: "set_block M 0 0 (Suc 0) nx ?c' = Inr (put M 0 0 ?c')" for M
    using set_block_exact[OF wfc'] by simp
  have s2: "set_block M 0 0 ne nx (pd_A pd) = Inr (put M 0 0 (pd_A pd))" for M
    by (rule set_block_exact) (use d in \<open>simp_all add: ne_def nx_def\<close>)
  have s3: "set_block M 0 0 ne (Suc 0) (pd_b pd) = Inr (put M 0 0 (pd_b pd))" for M
    by (rule set_block_exact) (use d in \<open>simp_all add: ne_def nx_def\<close>)
  have s4: "set_block M ne 0 ni nx (take_rows ni (pd_G pd))
              = Inr (put M ne 0 (take_rows ni (pd_G pd)))" for M
    by (rule set_block_exact) (use d in \<open>simp_all add: ne_def nx_def\<close>)
  have s5: "set_block M r0 c0 n n (eye n) = Inr (put M r0 c0 (eye n))" for M r0 c0 n
    by (rule set_block_exact) simp_all
  have s6: "set_block M ne 0 ni (Suc 0) (take_rows ni (pd_h pd))
              = Inr (put M ne 0 (take_rows ni (pd_h pd)))" for M
    by (rule set_block_exact) (use d in \<open>simp_all add: ne_def nx_def\<close>)
  have s7: "set_block M (ne + ni) 0 nsdp nx (drop_rows ni (pd_G pd))
              = Inr (put M (ne + ni) 0 (drop_rows ni (pd_G pd)))" for M
    by (rule set_block_exact) (use d in \<open>simp_all add: ne_def nx_def\<close>)
  have s8: "set_block M (ne + ni) 0 nsdp (Suc 0) (drop_rows ni (pd_h pd))
              = Inr (put M (ne + ni) 0 (drop_rows ni (pd_h pd)))" for M
    by (rule set_block_exact) (use d in \<open>simp_all add: ne_def nx_def\<close>)
  have neg: "\<not> dims_l (pd_dims pd) < 0" using d(14) by simp
  show ?thesis
    unfolding expand_def Let_def rest c' lens
    unfolding ni_def[symmetric] nsdp_def[symmetric]
    using neg
    by (simp add: and_next_def s1 s2 s3 s4 s5 s6 s7 s8 expanded_A_def expanded_b_def)
qed

lemma unit_row_nth: "i < n \<Longrightarrow> j < n \<Longrightarrow> unit_row n i ! j = (if i = j then 1 else 0)"
  by (auto simp: unit_row_def nth_list_update)

lemma unit_row_length [simp]: "length (unit_row n i) = n"
  by (simp add: unit_row_def)

lemma take_rows_entry: "i < k \<Longrightarrow> rws (take_rows k M) ! i = rws M ! i"
  by (simp add: take_rows_def)

lemma drop_rows_entry: "k + i < nrows M \<Longrightarrow> rws (drop_rows k M) ! i = rws M ! (k + i)"
  by (simp add: drop_rows_def nrows_def)

lemma expanded_A_spec:
  assumes wf: "wf_source pd"
  defines "nx \<equiv> nrows (pd_c pd)" and "ne \<equiv> nrows (pd_b pd)"
    and "ni \<equiv> nat (dims_l (pd_dims pd))"
    and "nsdp \<equiv> nat (sum_list (map (\<lambda>s. s * s) (dims_s (pd_dims pd))))"
  shows "expanded_A pd nx ne ni nsdp = fst (expanded_spec pd)"
proof -
  note d = wf_sourceD[OF wf, folded ni_def nsdp_def nx_def ne_def]
  let ?G = "rws (pd_G pd)"
  let ?S = "\<lparr>ncols = nx + ni + nsdp,
           rws = map (\<lambda>r. r @ replicate ni 0 @ replicate nsdp 0) (rws (pd_A pd))
               @ map (\<lambda>i. ?G ! i @ unit_row ni i @ replicate nsdp 0) [0..<ni]
               @ map (\<lambda>i. ?G ! (ni + i) @ replicate ni 0 @ unit_row nsdp i) [0..<nsdp]\<rparr>"
  have spec: "fst (expanded_spec pd) = ?S"
    by (simp add: expanded_spec_def Let_def nx_def ni_def nsdp_def)
  have lenA: "length (rws (pd_A pd)) = ne" using d(9) by (simp add: nrows_def ne_def)
  have rowA: "length (rws (pd_A pd) ! i) = nx" if "i < ne" for i
    using wf_matrix_nth[OF d(1), of i] that d(9,10) by (simp add: ne_def nx_def)
  have rowG: "length (?G ! i) = nx" if "i < ni + nsdp" for i
    using wf_matrix_nth[OF d(3), of i] that d(11,12) by simp
  have wfS: "wf_matrix ?S"
    using rowA rowG lenA by (auto simp: wf_matrix_iff in_set_conv_nth)
  have nrS: "nrows ?S = ne + ni + nsdp" by (simp add: nrows_def lenA)
  show ?thesis unfolding spec
  proof (rule matrix_eqI)
    show "wf_matrix (expanded_A pd nx ne ni nsdp)" by (simp add: expanded_A_def)
    show "wf_matrix ?S" by (rule wfS)
    show "ncols (expanded_A pd nx ne ni nsdp) = ncols ?S" by (simp add: expanded_A_def)
    show "nrows (expanded_A pd nx ne ni nsdp) = nrows ?S" by (simp add: expanded_A_def nrS)
    fix i j
    assume "i < nrows (expanded_A pd nx ne ni nsdp)" "j < ncols (expanded_A pd nx ne ni nsdp)"
    then have i: "i < ne + ni + nsdp" and j: "j < nx + ni + nsdp"
      by (simp_all add: expanded_A_def)
    consider "i < ne" | "ne \<le> i" "i < ne + ni" | "ne + ni \<le> i" by linarith
    then show "rws (expanded_A pd nx ne ni nsdp) ! i ! j = rws ?S ! i ! j"
    proof cases
      case 1
      consider "j < nx" | "nx \<le> j" by linarith
      then show ?thesis
      proof cases
        case a: 1
        with 1 i j rowA[OF 1] d(9,10) show ?thesis
          by (simp add: expanded_A_def put_entry zeros_entry nth_append lenA
              ne_def[symmetric] nx_def[symmetric])
      next
        case b: 2
        with 1 i j rowA[OF 1] d(9,10) show ?thesis
          by (simp add: expanded_A_def put_entry zeros_entry nth_append lenA
              ne_def[symmetric] nx_def[symmetric])
      qed
    next
      case 2
      then have k: "i - ne < ni" by simp
      have lenG: "length (?G ! (i - ne)) = nx" using rowG[of "i - ne"] k by simp
      consider "j < nx" | "nx \<le> j" "j < nx + ni" | "nx + ni \<le> j" by linarith
      then show ?thesis
      proof cases
        case a: 1
        with 2 k i j lenG d(9,10,11,12) show ?thesis
          by (simp add: expanded_A_def put_entry zeros_entry take_rows_entry nth_append lenA
              ne_def[symmetric] nx_def[symmetric])
      next
        case b: 2
        then have "j - nx < ni" by simp
        with b 2 k i j lenG d(9,10,11,12) show ?thesis
          by (simp add: expanded_A_def put_entry zeros_entry eye_entry unit_row_nth
              nth_append lenA ne_def[symmetric] nx_def[symmetric])
      next
        case c: 3
        then have "\<not> j - nx < ni" by simp
        with c 2 k i j lenG d(9,10,11,12) show ?thesis
          by (simp add: expanded_A_def put_entry zeros_entry nth_append lenA
              ne_def[symmetric] nx_def[symmetric])
      qed
    next
      case 3
      with i have k: "i - (ne + ni) < nsdp" by simp
      have e: "i - ne - ni = i - (ne + ni)" by simp
      have n3: "\<not> i - ne < ni" "\<not> i < ne" using 3 by simp_all
      have lenG: "length (?G ! (ni + (i - (ne + ni)))) = nx"
        using rowG[of "ni + (i - (ne + ni))"] k by simp
      consider "j < nx" | "nx \<le> j" "j < nx + ni" | "nx + ni \<le> j" by linarith
      then show ?thesis
      proof cases
        case a: 1
        with 3 n3 k i j lenG d(9,10,11,12) show ?thesis
          by (simp add: expanded_A_def put_entry zeros_entry drop_rows_entry nth_append lenA e
              ne_def[symmetric] nx_def[symmetric])
      next
        case b: 2
        then have "j - nx < ni" by simp
        with b 3 n3 k i j lenG d(9,10,11,12) show ?thesis
          by (simp add: expanded_A_def put_entry zeros_entry nth_append lenA e
              ne_def[symmetric] nx_def[symmetric])
      next
        case c: 3
        with j have "j - (nx + ni) < nsdp" by simp
        moreover have "j - nx - ni = j - (nx + ni)" by simp
        moreover have "\<not> j - nx < ni" using c by simp
        ultimately show ?thesis using c 3 n3 k i j lenG d(9,10,11,12)
          by (simp add: expanded_A_def put_entry zeros_entry eye_entry unit_row_nth
              nth_append lenA e ne_def[symmetric] nx_def[symmetric])
      qed
    qed
  qed
qed

lemma column_entries_length [simp]: "length (column_entries M) = nrows M"
  by (simp add: column_entries_def nrows_def)

lemma column_entries_nth: "i < nrows M \<Longrightarrow> column_entries M ! i = rws M ! i ! 0"
  by (simp add: column_entries_def nrows_def)

lemma expanded_b_spec:
  assumes wf: "wf_source pd"
  defines "ne \<equiv> nrows (pd_b pd)"
    and "ni \<equiv> nat (dims_l (pd_dims pd))"
    and "nsdp \<equiv> nat (sum_list (map (\<lambda>s. s * s) (dims_s (pd_dims pd))))"
  shows "column_entries (expanded_b pd ne ni nsdp) = fst (snd (expanded_spec pd))"
proof -
  note d = wf_sourceD[OF wf, folded ni_def nsdp_def ne_def]
  have spec: "fst (snd (expanded_spec pd)) = column_entries (pd_b pd) @ column_entries (pd_h pd)"
    by (simp add: expanded_spec_def Let_def)
  have nb: "nrows (pd_b pd) = ne" by (simp add: ne_def)
  have nr: "nrows (expanded_b pd ne ni nsdp) = ne + ni + nsdp" by (simp add: expanded_b_def)
  show ?thesis unfolding spec
  proof (rule nth_equalityI)
    show "length (column_entries (expanded_b pd ne ni nsdp))
            = length (column_entries (pd_b pd) @ column_entries (pd_h pd))"
      using nr nb d(13) by simp
    fix i assume "i < length (column_entries (expanded_b pd ne ni nsdp))"
    then have i: "i < ne + ni + nsdp" using nr by simp
    have l: "column_entries (expanded_b pd ne ni nsdp) ! i = rws (expanded_b pd ne ni nsdp) ! i ! 0"
      using i nr by (simp add: column_entries_nth)
    consider "i < ne" | "ne \<le> i" "i < ne + ni" | "ne + ni \<le> i" by linarith
    then show "column_entries (expanded_b pd ne ni nsdp) ! i
                 = (column_entries (pd_b pd) @ column_entries (pd_h pd)) ! i"
    proof cases
      case 1
      with i d(7,8,13) nb show ?thesis unfolding l
        by (simp add: expanded_b_def put_entry nth_append column_entries_nth)
    next
      case 2
      then have "i - ne < ni" "\<not> i < ne" "i - ne < ni + nsdp" by simp_all
      with 2 i d(7,8,13) nb show ?thesis unfolding l
        by (simp add: expanded_b_def put_entry nth_append column_entries_nth take_rows_entry)
    next
      case 3
      then have "\<not> i < ne" "\<not> i < ne + ni" "ni + (i - (ne + ni)) = i - ne"
        "i - ne < ni + nsdp" using i by simp_all
      with 3 i d(7,8,13) nb show ?thesis unfolding l
        by (simp add: expanded_b_def put_entry nth_append column_entries_nth drop_rows_entry)
    qed
  qed
qed

lemma expanded_c_spec:
  assumes wf: "wf_source pd"
  defines "nx \<equiv> nrows (pd_c pd)"
    and "ni \<equiv> nat (dims_l (pd_dims pd))"
    and "nsdp \<equiv> nat (sum_list (map (\<lambda>s. s * s) (dims_s (pd_dims pd))))"
  shows "row_entries (put (zeros 1 (nx + ni + nsdp)) 0 0
                        \<lparr>ncols = nx, rws = [column_entries (pd_c pd)]\<rparr>)
         = fst (snd (snd (expanded_spec pd)))"
proof -
  have spec: "fst (snd (snd (expanded_spec pd)))
                = column_entries (pd_c pd) @ replicate ni 0 @ replicate nsdp 0"
    by (simp add: expanded_spec_def Let_def ni_def nsdp_def)
  have lc: "length (column_entries (pd_c pd)) = nx"
    by (simp add: nx_def)
  show ?thesis unfolding spec
  proof (rule nth_equalityI)
    show "length (row_entries (put (zeros 1 (nx + ni + nsdp)) 0 0
                        \<lparr>ncols = nx, rws = [column_entries (pd_c pd)]\<rparr>))
          = length (column_entries (pd_c pd) @ replicate ni 0 @ replicate nsdp 0)"
      using lc by (simp add: row_entries_def put_def zeros_def nrows_def)
    fix j assume "j < length (row_entries (put (zeros 1 (nx + ni + nsdp)) 0 0
                        \<lparr>ncols = nx, rws = [column_entries (pd_c pd)]\<rparr>))"
    then have j: "j < nx + ni + nsdp"
      by (simp add: row_entries_def put_def zeros_def nrows_def)
    show "row_entries (put (zeros 1 (nx + ni + nsdp)) 0 0
                        \<lparr>ncols = nx, rws = [column_entries (pd_c pd)]\<rparr>) ! j
          = (column_entries (pd_c pd) @ replicate ni 0 @ replicate nsdp 0) ! j"
      using j lc
      by (auto simp: row_entries_def put_def zeros_def nrows_def nth_append)
  qed
qed

lemma expand_of_source:
  assumes wf: "wf_source pd"
  shows "\<exists>A_star b_star c_star K.
     expand (problem_data_prep pd) = Inr (A_star, b_star, c_star, K)
     \<and> (A_star, column_entries b_star, row_entries c_star, K) = expanded_spec pd"
proof -
  have K: "snd (snd (snd (expanded_spec pd)))
             = \<lparr>K_f = int (nrows (pd_c pd)), K_l = dims_l (pd_dims pd), K_s = dims_s (pd_dims pd)\<rparr>"
    by (simp add: expanded_spec_def Let_def)
  show ?thesis
    unfolding expand_prepared[OF wf]
    using expanded_A_spec[OF wf] expanded_b_spec[OF wf] expanded_c_spec[OF wf] K
    by (simp add: prod_eq_iff)
qed

lemma make_simplified:
  assumes q: "dims_q (pd_dims pd) = []"
    and e: "expand (problem_data_prep pd) = Inr (A_star, b_star, c_star, K)"
  shows "snd (make_sedumi_format_problem pd True) =
           (case simplify_sedumi_model A_star (column_entries b_star) (row_entries c_star) K False of
              Inl e \<Rightarrow> Inl e
            | Inr (_, (A1, b1, c1, K1, _)) \<Rightarrow>
                map_sum id snd (simplify_sedumi_model A1 b1 c1 K1 False))"
proof -
  have dq: "dims_q (pd_dims (problem_data_prep pd)) = []"
    using q by (simp add: problem_data_prep_def)
  show ?thesis
  proof (cases "simplify_sedumi_model A_star (column_entries b_star) (row_entries c_star) K False")
    case (Inl err)
    then show ?thesis by (simp add: make_sedumi_format_problem_def Let_def dq e)
  next
    case (Inr r)
    obtain args A1 b1 c1 K1 off where r: "r = (args, A1, b1, c1, K1, off)"
      by (metis prod_cases6)
    from simplify_sedumi_model_offset[OF Inr[unfolded r]] have "off = 0" .
    with Inr r show ?thesis by (simp add: make_sedumi_format_problem_def Let_def dq e)
  qed
qed

lemma make_rejects_soc:
  "dims_q (pd_dims pd) \<noteq> [] \<Longrightarrow> snd (make_sedumi_format_problem pd simplify) = Inl AssertionError"
  by (simp add: make_sedumi_format_problem_def Let_def problem_data_prep_def)


text \<open>
  C6. For a well-formed source problem without SOC blocks the expansion step builds the
  system the specification lays out: variables \<open>[x | inequality slacks | SDP slacks]\<close>,
  rows \<open>[A | 0 | 0]\<close>, \<open>[G_l | I | 0]\<close>, \<open>[G_s | 0 | I]\<close> with right-hand sides \<open>b\<close>,
  \<open>h_l\<close>, \<open>h_s\<close>, objective \<open>[c, 0, 0]\<close> and \<open>K = {f: n_x, l: dims.l, s: dims.s}\<close>, and
  this system is what \<open>make_sedumi_format_problem\<close> hands to the simplifier. With a
  nonempty \<open>dims.q\<close> the function fails its first assertion and returns nothing.
\<close>

theorem expansion_layout:
  "(wf_source pd \<and> dims_q (pd_dims pd) = [] \<longrightarrow>
      (\<exists>A_star b_star c_star K.
         expand (problem_data_prep pd) = Inr (A_star, b_star, c_star, K)
         \<and> (A_star, column_entries b_star, row_entries c_star, K) = expanded_spec pd
         \<and> snd (make_sedumi_format_problem pd True) =
             (case simplify_sedumi_model A_star (column_entries b_star) (row_entries c_star)
                     K False of
                Inl e \<Rightarrow> Inl e
              | Inr (_, (A1, b1, c1, K1, _)) \<Rightarrow>
                  map_sum id snd (simplify_sedumi_model A1 b1 c1 K1 False))))
   \<and> (dims_q (pd_dims pd) \<noteq> [] \<longrightarrow>
        snd (make_sedumi_format_problem pd simplify) = Inl AssertionError)"
proof (intro conjI impI)
  assume a: "wf_source pd \<and> dims_q (pd_dims pd) = []"
  then obtain A_star b_star c_star K where
    e: "expand (problem_data_prep pd) = Inr (A_star, b_star, c_star, K)"
    and s: "(A_star, column_entries b_star, row_entries c_star, K) = expanded_spec pd"
    using expand_of_source by blast
  from make_simplified[OF _ e] a e s
  show "\<exists>A_star b_star c_star K.
         expand (problem_data_prep pd) = Inr (A_star, b_star, c_star, K)
         \<and> (A_star, column_entries b_star, row_entries c_star, K) = expanded_spec pd
         \<and> snd (make_sedumi_format_problem pd True) =
             (case simplify_sedumi_model A_star (column_entries b_star) (row_entries c_star)
                     K False of
                Inl e \<Rightarrow> Inl e
              | Inr (_, (A1, b1, c1, K1, _)) \<Rightarrow>
                  map_sum id snd (simplify_sedumi_model A1 b1 c1 K1 False))"
    by blast
next
  assume "dims_q (pd_dims pd) \<noteq> []"
  then show "snd (make_sedumi_format_problem pd simplify) = Inl AssertionError"
    by (rule make_rejects_soc)
qed


theorem expansion_layout_witness:
  "wf_source
     \<lparr>pd_A = \<lparr>ncols = 2, rws = [[1, 1]]\<rparr>, pd_b = \<lparr>ncols = 1, rws = [[2]]\<rparr>,
      pd_G = \<lparr>ncols = 2, rws = [[- 1, 0], [0, - 1]]\<rparr>, pd_h = \<lparr>ncols = 1, rws = [[0], [5]]\<rparr>,
      pd_c = \<lparr>ncols = 1, rws = [[1], [3]]\<rparr>,
      pd_dims = \<lparr>dims_l = 1, dims_q = [], dims_s = [1]\<rparr>\<rparr>
   \<and> (\<exists>b_star c_star.
        expand (problem_data_prep
           \<lparr>pd_A = \<lparr>ncols = 2, rws = [[1, 1]]\<rparr>, pd_b = \<lparr>ncols = 1, rws = [[2]]\<rparr>,
            pd_G = \<lparr>ncols = 2, rws = [[- 1, 0], [0, - 1]]\<rparr>,
            pd_h = \<lparr>ncols = 1, rws = [[0], [5]]\<rparr>, pd_c = \<lparr>ncols = 1, rws = [[1], [3]]\<rparr>,
            pd_dims = \<lparr>dims_l = 1, dims_q = [], dims_s = [1]\<rparr>\<rparr>)
          = Inr (\<lparr>ncols = 4, rws = [[1, 1, 0, 0], [- 1, 0, 1, 0], [0, - 1, 0, 1]]\<rparr>,
                 b_star, c_star, \<lparr>K_f = 2, K_l = 1, K_s = [1]\<rparr>)
        \<and> column_entries b_star = [2, 0, 5] \<and> row_entries c_star = [1, 3, 0, 0])
   \<and> snd (make_sedumi_format_problem
            \<lparr>pd_A = \<lparr>ncols = 2, rws = [[1, 1]]\<rparr>, pd_b = \<lparr>ncols = 1, rws = [[2]]\<rparr>,
             pd_G = \<lparr>ncols = 2, rws = [[- 1, 0], [0, - 1]]\<rparr>,
             pd_h = \<lparr>ncols = 1, rws = [[0], [5]]\<rparr>, pd_c = \<lparr>ncols = 1, rws = [[1], [3]]\<rparr>,
             pd_dims = \<lparr>dims_l = 1, dims_q = [2], dims_s = [1]\<rparr>\<rparr> True)
       = Inl AssertionError"
proof -
  let ?pd = "\<lparr>pd_A = \<lparr>ncols = 2, rws = [[1, 1]]\<rparr>, pd_b = \<lparr>ncols = 1, rws = [[2]]\<rparr>,
      pd_G = \<lparr>ncols = 2, rws = [[- 1, 0], [0, - 1]]\<rparr>, pd_h = \<lparr>ncols = 1, rws = [[0], [5]]\<rparr>,
      pd_c = \<lparr>ncols = 1, rws = [[1], [3]]\<rparr>,
      pd_dims = \<lparr>dims_l = 1, dims_q = [], dims_s = [1]\<rparr>\<rparr>"
  let ?pq = "\<lparr>pd_A = \<lparr>ncols = 2, rws = [[1, 1]]\<rparr>, pd_b = \<lparr>ncols = 1, rws = [[2]]\<rparr>,
             pd_G = \<lparr>ncols = 2, rws = [[- 1, 0], [0, - 1]]\<rparr>,
             pd_h = \<lparr>ncols = 1, rws = [[0], [5]]\<rparr>, pd_c = \<lparr>ncols = 1, rws = [[1], [3]]\<rparr>,
             pd_dims = \<lparr>dims_l = 1, dims_q = [2], dims_s = [1]\<rparr>\<rparr>"
  have wf: "wf_source ?pd" by code_simp
  have q: "dims_q (pd_dims ?pd) = []" by simp
  have spec: "expanded_spec ?pd
     = (\<lparr>ncols = 4, rws = [[1, 1, 0, 0], [- 1, 0, 1, 0], [0, - 1, 0, 1]]\<rparr>,
        [2, 0, 5], [1, 3, 0, 0], \<lparr>K_f = 2, K_l = 1, K_s = [1]\<rparr>)"
    by code_simp
  from expansion_layout[of ?pd True] wf q obtain A_star b_star c_star K where
    e: "expand (problem_data_prep ?pd) = Inr (A_star, b_star, c_star, K)"
    and s: "(A_star, column_entries b_star, row_entries c_star, K) = expanded_spec ?pd"
    by blast
  from s spec have "A_star = \<lparr>ncols = 4, rws = [[1, 1, 0, 0], [- 1, 0, 1, 0], [0, - 1, 0, 1]]\<rparr>"
    "column_entries b_star = [2, 0, 5]" "row_entries c_star = [1, 3, 0, 0]"
    "K = \<lparr>K_f = 2, K_l = 1, K_s = [1]\<rparr>"
    by simp_all
  with e have first: "\<exists>b_star c_star.
        expand (problem_data_prep ?pd)
          = Inr (\<lparr>ncols = 4, rws = [[1, 1, 0, 0], [- 1, 0, 1, 0], [0, - 1, 0, 1]]\<rparr>,
                 b_star, c_star, \<lparr>K_f = 2, K_l = 1, K_s = [1]\<rparr>)
        \<and> column_entries b_star = [2, 0, 5] \<and> row_entries c_star = [1, 3, 0, 0]"
    by blast
  have "dims_q (pd_dims ?pq) \<noteq> []" by simp
  with expansion_layout[of ?pq True]
  have "snd (make_sedumi_format_problem ?pq True) = Inl AssertionError" by blast
  with wf first show ?thesis by blast
qed

section \<open>Dimensions of what is returned\<close>

lemma and_next_Inr:
  "and_next r k = Inr y \<Longrightarrow> \<exists>x. r = Inr x \<and> k x = Inr y"
  by (cases r) (simp_all add: and_next_def)

lemma set_block_shape:
  assumes "set_block M r0 c0 R C V = Inr M'"
  shows "ncols M' = ncols M" "nrows M' = nrows M" "wf_matrix M'"
  using assms
  by (auto simp: set_block_def nrows_def wf_matrix_iff split: sum.splits)

lemma sum_squares_nonneg: "0 \<le> sum_list (map (\<lambda>s. s * s) xs)" for xs :: "int list"
  by (induction xs) auto

lemma expand_shape:
  assumes "expand pd = Inr (A_star, b_star, c_star, K)"
  shows "wf_problem A_star (column_entries b_star) (row_entries c_star)"
    and "int (ncols A_star) = cone_size K"
proof -
  define nx where "nx = len_m (pd_c pd)"
  define ne where "ne = len_m (pd_b pd)"
  define ni where "ni = nat (dims_l (pd_dims pd))"
  define nsdp where "nsdp = nat (sum_list (map (\<lambda>s. s * s) (dims_s (pd_dims pd))))"
  from assms have nonneg: "0 \<le> dims_l (pd_dims pd)"
    by (auto simp: expand_def Let_def split: if_splits)
  with assms have chain:
    "and_next (set_block (zeros 1 (nx + ni + nsdp)) 0 0 1 nx (pd_c pd)) (\<lambda>c_star.
     and_next (set_block (zeros (ne + ni + nsdp) (nx + ni + nsdp)) 0 0 ne nx (pd_A pd))
       (\<lambda>A_star.
     and_next (set_block (zeros (ne + ni + nsdp) 1) 0 0 ne 1 (pd_b pd)) (\<lambda>b_star.
     and_next (set_block A_star ne 0 ni nx (take_rows ni (pd_G pd))) (\<lambda>A_star.
     and_next (set_block A_star ne nx ni ni (eye ni)) (\<lambda>A_star.
     and_next (set_block b_star ne 0 ni 1 (take_rows ni (pd_h pd))) (\<lambda>b_star.
     and_next (set_block A_star (ne + ni) 0 nsdp nx (drop_rows ni (pd_G pd))) (\<lambda>A_star.
     and_next (set_block A_star (ne + ni) (nx + ni) nsdp nsdp (eye nsdp)) (\<lambda>A_star.
     and_next (set_block b_star (ne + ni) 0 nsdp 1 (drop_rows ni (pd_h pd))) (\<lambda>b_star.
       Inr (A_star, b_star, c_star,
            \<lparr>K_f = int nx, K_l = dims_l (pd_dims pd), K_s = dims_s (pd_dims pd)\<rparr>))))))))))
     = Inr (A_star, b_star, c_star, K)"
    unfolding expand_def Let_def nx_def ne_def ni_def nsdp_def by simp
  from and_next_Inr[OF chain] obtain c0 where
    c0: "set_block (zeros 1 (nx + ni + nsdp)) 0 0 1 nx (pd_c pd) = Inr c0" and r1: "and_next (set_block (zeros (ne + ni + nsdp) (nx + ni + nsdp)) 0 0 ne nx (pd_A pd))
       (\<lambda>A_star.
     and_next (set_block (zeros (ne + ni + nsdp) 1) 0 0 ne 1 (pd_b pd)) (\<lambda>b_star.
     and_next (set_block A_star ne 0 ni nx (take_rows ni (pd_G pd))) (\<lambda>A_star.
     and_next (set_block A_star ne nx ni ni (eye ni)) (\<lambda>A_star.
     and_next (set_block b_star ne 0 ni 1 (take_rows ni (pd_h pd))) (\<lambda>b_star.
     and_next (set_block A_star (ne + ni) 0 nsdp nx (drop_rows ni (pd_G pd))) (\<lambda>A_star.
     and_next (set_block A_star (ne + ni) (nx + ni) nsdp nsdp (eye nsdp)) (\<lambda>A_star.
     and_next (set_block b_star (ne + ni) 0 nsdp 1 (drop_rows ni (pd_h pd))) (\<lambda>b_star.
       Inr (A_star, b_star, c0,
            \<lparr>K_f = int nx, K_l = dims_l (pd_dims pd), K_s = dims_s (pd_dims pd)\<rparr>)))))))))
     = Inr (A_star, b_star, c_star, K)"
    by blast
  from and_next_Inr[OF r1] obtain A1 where
    A1: "set_block (zeros (ne + ni + nsdp) (nx + ni + nsdp)) 0 0 ne nx (pd_A pd) = Inr A1"
    and r2: "and_next (set_block (zeros (ne + ni + nsdp) 1) 0 0 ne 1 (pd_b pd)) (\<lambda>b_star.
     and_next (set_block A1 ne 0 ni nx (take_rows ni (pd_G pd))) (\<lambda>A_star.
     and_next (set_block A_star ne nx ni ni (eye ni)) (\<lambda>A_star.
     and_next (set_block b_star ne 0 ni 1 (take_rows ni (pd_h pd))) (\<lambda>b_star.
     and_next (set_block A_star (ne + ni) 0 nsdp nx (drop_rows ni (pd_G pd))) (\<lambda>A_star.
     and_next (set_block A_star (ne + ni) (nx + ni) nsdp nsdp (eye nsdp)) (\<lambda>A_star.
     and_next (set_block b_star (ne + ni) 0 nsdp 1 (drop_rows ni (pd_h pd))) (\<lambda>b_star.
       Inr (A_star, b_star, c0,
            \<lparr>K_f = int nx, K_l = dims_l (pd_dims pd), K_s = dims_s (pd_dims pd)\<rparr>))))))))
     = Inr (A_star, b_star, c_star, K)"
    by blast
  from and_next_Inr[OF r2] obtain b1 where
    b1: "set_block (zeros (ne + ni + nsdp) 1) 0 0 ne 1 (pd_b pd) = Inr b1"
    and r3: "and_next (set_block A1 ne 0 ni nx (take_rows ni (pd_G pd))) (\<lambda>A_star.
     and_next (set_block A_star ne nx ni ni (eye ni)) (\<lambda>A_star.
     and_next (set_block b1 ne 0 ni 1 (take_rows ni (pd_h pd))) (\<lambda>b_star.
     and_next (set_block A_star (ne + ni) 0 nsdp nx (drop_rows ni (pd_G pd))) (\<lambda>A_star.
     and_next (set_block A_star (ne + ni) (nx + ni) nsdp nsdp (eye nsdp)) (\<lambda>A_star.
     and_next (set_block b_star (ne + ni) 0 nsdp 1 (drop_rows ni (pd_h pd))) (\<lambda>b_star.
       Inr (A_star, b_star, c0,
            \<lparr>K_f = int nx, K_l = dims_l (pd_dims pd), K_s = dims_s (pd_dims pd)\<rparr>)))))))
     = Inr (A_star, b_star, c_star, K)"
    by blast
  from and_next_Inr[OF r3] obtain A2 where
    A2: "set_block A1 ne 0 ni nx (take_rows ni (pd_G pd)) = Inr A2"
    and r4: "and_next (set_block A2 ne nx ni ni (eye ni)) (\<lambda>A_star.
     and_next (set_block b1 ne 0 ni 1 (take_rows ni (pd_h pd))) (\<lambda>b_star.
     and_next (set_block A_star (ne + ni) 0 nsdp nx (drop_rows ni (pd_G pd))) (\<lambda>A_star.
     and_next (set_block A_star (ne + ni) (nx + ni) nsdp nsdp (eye nsdp)) (\<lambda>A_star.
     and_next (set_block b_star (ne + ni) 0 nsdp 1 (drop_rows ni (pd_h pd))) (\<lambda>b_star.
       Inr (A_star, b_star, c0,
            \<lparr>K_f = int nx, K_l = dims_l (pd_dims pd), K_s = dims_s (pd_dims pd)\<rparr>))))))
     = Inr (A_star, b_star, c_star, K)"
    by blast
  from and_next_Inr[OF r4] obtain A3 where
    A3: "set_block A2 ne nx ni ni (eye ni) = Inr A3"
    and r5: "and_next (set_block b1 ne 0 ni 1 (take_rows ni (pd_h pd))) (\<lambda>b_star.
     and_next (set_block A3 (ne + ni) 0 nsdp nx (drop_rows ni (pd_G pd))) (\<lambda>A_star.
     and_next (set_block A_star (ne + ni) (nx + ni) nsdp nsdp (eye nsdp)) (\<lambda>A_star.
     and_next (set_block b_star (ne + ni) 0 nsdp 1 (drop_rows ni (pd_h pd))) (\<lambda>b_star.
       Inr (A_star, b_star, c0,
            \<lparr>K_f = int nx, K_l = dims_l (pd_dims pd), K_s = dims_s (pd_dims pd)\<rparr>)))))
     = Inr (A_star, b_star, c_star, K)"
    by blast
  from and_next_Inr[OF r5] obtain b2 where
    b2: "set_block b1 ne 0 ni 1 (take_rows ni (pd_h pd)) = Inr b2"
    and r6: "and_next (set_block A3 (ne + ni) 0 nsdp nx (drop_rows ni (pd_G pd))) (\<lambda>A_star.
     and_next (set_block A_star (ne + ni) (nx + ni) nsdp nsdp (eye nsdp)) (\<lambda>A_star.
     and_next (set_block b2 (ne + ni) 0 nsdp 1 (drop_rows ni (pd_h pd))) (\<lambda>b_star.
       Inr (A_star, b_star, c0,
            \<lparr>K_f = int nx, K_l = dims_l (pd_dims pd), K_s = dims_s (pd_dims pd)\<rparr>))))
     = Inr (A_star, b_star, c_star, K)"
    by blast
  from and_next_Inr[OF r6] obtain A4 where
    A4: "set_block A3 (ne + ni) 0 nsdp nx (drop_rows ni (pd_G pd)) = Inr A4"
    and r7: "and_next (set_block A4 (ne + ni) (nx + ni) nsdp nsdp (eye nsdp)) (\<lambda>A_star.
     and_next (set_block b2 (ne + ni) 0 nsdp 1 (drop_rows ni (pd_h pd))) (\<lambda>b_star.
       Inr (A_star, b_star, c0,
            \<lparr>K_f = int nx, K_l = dims_l (pd_dims pd), K_s = dims_s (pd_dims pd)\<rparr>)))
     = Inr (A_star, b_star, c_star, K)"
    by blast
  from and_next_Inr[OF r7] obtain A5 where
    A5: "set_block A4 (ne + ni) (nx + ni) nsdp nsdp (eye nsdp) = Inr A5"
    and r8: "and_next (set_block b2 (ne + ni) 0 nsdp 1 (drop_rows ni (pd_h pd))) (\<lambda>b_star.
       Inr (A5, b_star, c0,
            \<lparr>K_f = int nx, K_l = dims_l (pd_dims pd), K_s = dims_s (pd_dims pd)\<rparr>))
     = Inr (A_star, b_star, c_star, K)"
    by blast
  from and_next_Inr[OF r8] obtain b3 where
    b3: "set_block b2 (ne + ni) 0 nsdp 1 (drop_rows ni (pd_h pd)) = Inr b3"
    and fin: "A_star = A5" "b_star = b3" "c_star = c0"
      "K = \<lparr>K_f = int nx, K_l = dims_l (pd_dims pd), K_s = dims_s (pd_dims pd)\<rparr>"
    by auto
  have shA: "ncols A_star = nx + ni + nsdp" "nrows A_star = ne + ni + nsdp" "wf_matrix A_star"
    unfolding fin
    using set_block_shape[OF A1] set_block_shape[OF A2] set_block_shape[OF A3]
      set_block_shape[OF A4] set_block_shape[OF A5]
    by (simp_all add: zeros_def nrows_def)
  have shb: "nrows b_star = ne + ni + nsdp"
    unfolding fin
    using set_block_shape[OF b1] set_block_shape[OF b2] set_block_shape[OF b3]
    by (simp add: zeros_def nrows_def)
  have shc: "ncols c_star = nx + ni + nsdp" "nrows c_star = 1" "wf_matrix c_star"
    unfolding fin using set_block_shape[OF c0] by (simp_all add: zeros_def nrows_def)
  from shc have "length (row_entries c_star) = nx + ni + nsdp"
    using wf_matrix_nth[of c_star 0] by (simp add: row_entries_def)
  with shA shb show "wf_problem A_star (column_entries b_star) (row_entries c_star)"
    by (simp add: wf_problem_def column_entries_def nrows_def)
  show "int (ncols A_star) = cone_size K"
    using shA(1) nonneg sum_squares_nonneg[of "dims_s (pd_dims pd)"]
    by (simp add: fin cone_size_def ni_def nsdp_def)
qed

lemma simplify_dims:
  assumes wf: "wf_problem A b c" and eq: "int (ncols A) = cone_size K"
    and s: "simplify_sedumi_model A b c K a = Inr (args, A', b', c', K', off)"
  shows "wf_problem A' b' c'" "int (ncols A') = cone_size K'"
proof -
  let ?w0 = "\<lparr>w_A = A, w_b = b, w_c = c, w_offset = 0\<rparr>"
  from wf have wf0: "wf_problem (w_A ?w0) (w_b ?w0) (w_c ?w0)" by simp
  from simplify_sedumi_model_InrD[OF s] obtain w where
    p: "elimination_pass (K_f K) a [0..<length b] ?w0 = Inr w"
    and q: "prune w K = Inr (A', b', c', K', off)"
    by blast
  from elimination_pass_shape[OF p wf0]
  have wfw: "wf_problem (w_A w) (w_b w) (w_c w)" and len: "length (w_c w) = length c" by auto
  from q have out: "A' = pruned_A (w_A w) (w_b w) (w_c w) K"
      "b' = map (\<lambda>r. w_b w ! r) (kept_rows (w_A w) (w_b w))"
      "c' = map (\<lambda>j. w_c w ! j) (kept_cols (w_A w) (w_c w) K)"
      "K' = pruned_K (w_A w) (w_c w) K"
    unfolding prune_pruned[OF wfw] by (auto split: if_splits)
  show "wf_problem A' b' c'" unfolding out by (rule pruned_wf)
  from wf have "ncols A = length c" by (simp add: wf_problem_def)
  with eq len column_partition[of "w_A w" "w_c w" K]
  show "int (ncols A') = cone_size K'"
    unfolding out by (simp add: pruned_A_def pruned_K_def cone_size_def)
qed

lemma make_InrD:
  assumes "snd (make_sedumi_format_problem pd s) = Inr res"
  shows "\<exists>A_star b_star c_star K args A1 b1 c1 K1 args2.
     s \<and> dims_q (pd_dims pd) = []
     \<and> expand (problem_data_prep pd) = Inr (A_star, b_star, c_star, K)
     \<and> simplify_sedumi_model A_star (column_entries b_star) (row_entries c_star) K False
         = Inr (args, A1, b1, c1, K1, 0)
     \<and> simplify_sedumi_model A1 b1 c1 K1 False = Inr (args2, res)"
proof -
  have dq: "dims_q (pd_dims (problem_data_prep pd)) = dims_q (pd_dims pd)"
    by (simp add: problem_data_prep_def)
  from assms have q: "dims_q (pd_dims pd) = []"
    by (auto simp: make_sedumi_format_problem_def Let_def dq split: if_splits)
  from assms q obtain x where x: "expand (problem_data_prep pd) = Inr x"
    by (cases "expand (problem_data_prep pd)")
       (auto simp: make_sedumi_format_problem_def Let_def dq)
  obtain A_star b_star c_star K where xx: "x = (A_star, b_star, c_star, K)"
    by (metis prod_cases4)
  from assms q x xx have s: s
    by (auto simp: make_sedumi_format_problem_def Let_def dq split: if_splits)
  from assms q x xx s obtain y where
    y: "simplify_sedumi_model A_star (column_entries b_star) (row_entries c_star) K False = Inr y"
    by (cases "simplify_sedumi_model A_star (column_entries b_star) (row_entries c_star) K False")
       (auto simp: make_sedumi_format_problem_def Let_def dq)
  obtain args A1 b1 c1 K1 off where yy: "y = (args, A1, b1, c1, K1, off)"
    by (metis prod_cases6)
  from simplify_sedumi_model_offset[OF y[unfolded yy]] have off: "off = 0" .
  from assms q x xx s y yy off
  have "map_sum id snd (simplify_sedumi_model A1 b1 c1 K1 False) = Inr res"
    by (simp add: make_sedumi_format_problem_def Let_def dq)
  then obtain args2 where "simplify_sedumi_model A1 b1 c1 K1 False = Inr (args2, res)"
    by (cases "simplify_sedumi_model A1 b1 c1 K1 False") auto
  with q x xx s y yy off show ?thesis by blast
qed


text \<open>
  C7. Dimension consistency. A problem that \<open>simplify_sedumi_model\<close> returns for a
  well-shaped input whose column count is \<open>K.f + K.l + \<Sum>s\<^sup>2\<close> has again as many columns
  as its cone descriptor counts, and as many rows as \<open>b\<close> has entries; so has every
  problem that \<open>make_sedumi_format_problem\<close> returns.
\<close>

theorem dimension_consistency:
  "(\<forall>args A' b' c' K' off.
      wf_problem A b c \<and> int (ncols A) = cone_size K
      \<and> simplify_sedumi_model A b c K a = Inr (args, A', b', c', K', off)
      \<longrightarrow> int (ncols A') = cone_size K' \<and> nrows A' = length b')
   \<and> (\<forall>A' b' c' K' off.
        snd (make_sedumi_format_problem pd s) = Inr (A', b', c', K', off)
        \<longrightarrow> int (ncols A') = cone_size K' \<and> nrows A' = length b')"
proof (intro conjI allI impI)
  fix args A' b' c' K' off
  assume h: "wf_problem A b c \<and> int (ncols A) = cone_size K
      \<and> simplify_sedumi_model A b c K a = Inr (args, A', b', c', K', off)"
  then have h1: "wf_problem A b c" and h2: "int (ncols A) = cone_size K"
    and h3: "simplify_sedumi_model A b c K a = Inr (args, A', b', c', K', off)"
    by simp_all
  note r = simplify_dims[OF h1 h2 h3]
  show "int (ncols A') = cone_size K'" by (rule r(2))
  show "nrows A' = length b'" using r(1) by (simp add: wf_problem_def)
next
  fix A' b' c' K' off
  assume "snd (make_sedumi_format_problem pd s) = Inr (A', b', c', K', off)"
  from make_InrD[OF this] obtain A_star b_star c_star K args A1 b1 c1 K1 args2 where
    e: "expand (problem_data_prep pd) = Inr (A_star, b_star, c_star, K)"
    and s1: "simplify_sedumi_model A_star (column_entries b_star) (row_entries c_star) K False
         = Inr (args, A1, b1, c1, K1, 0)"
    and s2: "simplify_sedumi_model A1 b1 c1 K1 False = Inr (args2, A', b', c', K', off)"
    by blast
  note sh = expand_shape[OF e]
  note d1 = simplify_dims[OF sh s1]
  note d2 = simplify_dims[OF d1 s2]
  show "int (ncols A') = cone_size K'" by (rule d2(2))
  show "nrows A' = length b'" using d2(1) by (simp add: wf_problem_def)
qed

theorem dimension_consistency_witness:
  "wf_problem \<lparr>ncols = 3, rws = [[2, 4, 0], [1, 1, 1]]\<rparr> [0, 5] [1, 2, 3]
   \<and> int (ncols \<lparr>ncols = 3, rws = [[2, 4, 0], [1, 1, 1]]\<rparr>)
        = cone_size \<lparr>K_f = 1, K_l = 1, K_s = [1]\<rparr>
   \<and> simplify_sedumi_model \<lparr>ncols = 3, rws = [[2, 4, 0], [1, 1, 1]]\<rparr> [0, 5] [1, 2, 3]
        \<lparr>K_f = 1, K_l = 1, K_s = [1]\<rparr> False
      = Inr ((\<lparr>ncols = 3, rws = [[0, 0, 0], [0, - 1, 1]]\<rparr>, [0, 5], [0, 0, 3]),
             \<lparr>ncols = 2, rws = [[- 1, 1]]\<rparr>, [5], [0, 3], \<lparr>K_f = 0, K_l = 1, K_s = [1]\<rparr>, 0)
   \<and> int (ncols \<lparr>ncols = 2, rws = [[- 1, 1 :: real]]\<rparr>)
        = cone_size \<lparr>K_f = 0, K_l = 1, K_s = [1]\<rparr>
   \<and> nrows \<lparr>ncols = 2, rws = [[- 1, 1]]\<rparr> = length [5 :: real]
   \<and> snd (make_sedumi_format_problem
            \<lparr>pd_A = \<lparr>ncols = 2, rws = [[1, 1]]\<rparr>, pd_b = \<lparr>ncols = 1, rws = [[2]]\<rparr>,
             pd_G = \<lparr>ncols = 2, rws = [[- 1, 0], [0, - 1]]\<rparr>,
             pd_h = \<lparr>ncols = 1, rws = [[0], [5]]\<rparr>, pd_c = \<lparr>ncols = 1, rws = [[1], [3]]\<rparr>,
             pd_dims = \<lparr>dims_l = 1, dims_q = [], dims_s = [1]\<rparr>\<rparr> True)
       = Inr (\<lparr>ncols = 3, rws = [[1, 1, 0], [- 1, 0, 1]]\<rparr>, [2, 5], [3, 1, 0],
              \<lparr>K_f = 1, K_l = 1, K_s = [1]\<rparr>, 0)
   \<and> int (ncols \<lparr>ncols = 3, rws = [[1, 1, 0], [- 1, 0, 1 :: real]]\<rparr>)
        = cone_size \<lparr>K_f = 1, K_l = 1, K_s = [1]\<rparr>
   \<and> nrows \<lparr>ncols = 3, rws = [[1, 1, 0], [- 1, 0, 1]]\<rparr> = length [2, 5 :: real]"
proof -
  let ?A = "\<lparr>ncols = 3, rws = [[2, 4, 0], [1, 1, 1]]\<rparr>"
  let ?K = "\<lparr>K_f = 1, K_l = 1, K_s = [1]\<rparr>"
  let ?pd = "\<lparr>pd_A = \<lparr>ncols = 2, rws = [[1, 1]]\<rparr>, pd_b = \<lparr>ncols = 1, rws = [[2]]\<rparr>,
             pd_G = \<lparr>ncols = 2, rws = [[- 1, 0], [0, - 1]]\<rparr>,
             pd_h = \<lparr>ncols = 1, rws = [[0], [5]]\<rparr>, pd_c = \<lparr>ncols = 1, rws = [[1], [3]]\<rparr>,
             pd_dims = \<lparr>dims_l = 1, dims_q = [], dims_s = [1]\<rparr>\<rparr>"
  have h1: "wf_problem ?A [0, 5] [1, 2, 3]"
    by (simp add: wf_problem_def wf_matrix_def nrows_def)
  have h2: "int (ncols ?A) = cone_size ?K" by (simp add: cone_size_def)
  have h3: "simplify_sedumi_model ?A [0, 5] [1, 2, 3] ?K False
      = Inr ((\<lparr>ncols = 3, rws = [[0, 0, 0], [0, - 1, 1]]\<rparr>, [0, 5], [0, 0, 3]),
             \<lparr>ncols = 2, rws = [[- 1, 1]]\<rparr>, [5], [0, 3], \<lparr>K_f = 0, K_l = 1, K_s = [1]\<rparr>, 0)"
    by code_simp
  have h4: "snd (make_sedumi_format_problem ?pd True)
       = Inr (\<lparr>ncols = 3, rws = [[1, 1, 0], [- 1, 0, 1]]\<rparr>, [2, 5], [3, 1, 0],
              \<lparr>K_f = 1, K_l = 1, K_s = [1]\<rparr>, 0)"
    by code_simp
  note t = dimension_consistency[of ?A "[0, 5]" "[1, 2, 3]" ?K False ?pd True]
  from t h1 h2 h3
  have c1: "int (ncols \<lparr>ncols = 2, rws = [[- 1, 1 :: real]]\<rparr>)
        = cone_size \<lparr>K_f = 0, K_l = 1, K_s = [1]\<rparr>
     \<and> nrows \<lparr>ncols = 2, rws = [[- 1, 1]]\<rparr> = length [5 :: real]"
    by blast
  from t h4
  have c2: "int (ncols \<lparr>ncols = 3, rws = [[1, 1, 0], [- 1, 0, 1 :: real]]\<rparr>)
        = cone_size \<lparr>K_f = 1, K_l = 1, K_s = [1]\<rparr>
     \<and> nrows \<lparr>ncols = 3, rws = [[1, 1, 0], [- 1, 0, 1]]\<rparr> = length [2, 5 :: real]"
    by blast
  from h1 h2 h3 h4 c1 c2 show ?thesis by blast
qed


section \<open>The two paths of the simplify flag\<close>








section \<open>What a call leaves of its arguments\<close>











end
